theory Spec2Isabelle
  imports Complex_Main "HOL-Library.Multiset"
begin

section \<open>Python values used by the retrieval engine\<close>

text \<open>
  Python strings are sequences of code points. The model keeps the code points below 256
  (Latin-1, which holds every character of the keyword table) as \<^typ>\<open>char\<close>, so that
  \<open>len\<close>, slicing and \<open>in\<close> count what Python counts. Floating-point numbers are
  modelled as real numbers: rounding, infinities and NaN are outside the model.
\<close>

datatype pyexn = ZeroDivisionError | ValueError | ConnectionError

text \<open>The error kinds of the engine's documented taxonomy.\<close>

datatype error = InvalidArgument | Unavailable | Degenerate | Cancelled | Internal

definition isspace :: "char \<Rightarrow> bool" where
  "isspace c =
     (let n = (of_char c :: nat)
      in (9 \<le> n \<and> n \<le> 13) \<or> (28 \<le> n \<and> n \<le> 32) \<or> n = 133 \<or> n = 160)"

definition isupper :: "char \<Rightarrow> bool" where
  "isupper c =
     (let n = (of_char c :: nat)
      in (65 \<le> n \<and> n \<le> 90) \<or> (192 \<le> n \<and> n \<le> 214) \<or> (216 \<le> n \<and> n \<le> 222))"

text \<open>
  \<open>str.lower\<close>: an upper-case letter of Latin-1 moves up by 32, which sets bit 5 of its
  code point; every other character stays.
\<close>

definition lower_char :: "char \<Rightarrow> char" where
  "lower_char c =
     (if isupper c
      then (case c of Char b0 b1 b2 b3 b4 b5 b6 b7 \<Rightarrow> Char b0 b1 b2 b3 b4 True b6 b7)
      else c)"

definition lower :: "string \<Rightarrow> string" where
  "lower s = map lower_char s"

text \<open>\<open>str.split()\<close> without arguments: the maximal runs of non-whitespace characters.\<close>

fun split_from :: "string \<Rightarrow> string \<Rightarrow> string list" where
  "split_from cur [] = (if cur = [] then [] else [cur])"
| "split_from cur (c # cs) =
     (if isspace c
      then (if cur = [] then split_from [] cs else cur # split_from [] cs)
      else split_from (cur @ [c]) cs)"

definition split :: "string \<Rightarrow> string list" where
  "split s = split_from [] s"

text \<open>\<open>k in s\<close> on strings: \<open>k\<close> occurs in \<open>s\<close> as a contiguous substring.\<close>

fun startswith :: "string \<Rightarrow> string \<Rightarrow> bool" where
  "startswith s [] = True"
| "startswith [] (k # ks) = False"
| "startswith (c # cs) (k # ks) = (c = k \<and> startswith cs ks)"

fun str_contains :: "string \<Rightarrow> string \<Rightarrow> bool" where
  "str_contains [] k = (k = [])"
| "str_contains (c # cs) k = (startswith (c # cs) k \<or> str_contains cs k)"

text \<open>
  A Python \<open>dict\<close> keeps its keys in insertion order: an association list, where
  assigning to a present key replaces the value in place and a new key goes to the end.
\<close>

fun dict_set :: "'k \<Rightarrow> 'v \<Rightarrow> ('k \<times> 'v) list \<Rightarrow> ('k \<times> 'v) list" where
  "dict_set k v [] = [(k, v)]"
| "dict_set k v ((k', v') # d) =
     (if k' = k then (k, v) # d else (k', v') # dict_set k v d)"

section \<open>Tag inference (\<open>CentroidPersonalizer.infer_query_tag\<close>)\<close>

definition tag_keywords :: "(string \<times> string list) list" where
  "tag_keywords =
     [(''contratos_imobiliarios'',
         [''im'' @ [CHR 0xF3] @ ''vel'', ''casa'', ''apartamento'', ''aluguel'', ''compra'',
          ''venda'', ''propriedade'']),
      (''litigios_tributarios'',
         [''imposto'', ''tributo'', ''fisco'', ''receita'', ''icms'', ''ipi'', ''irpf'']),
      (''direito_trabalhista'',
         [''trabalho'', ''empregado'', ''sal'' @ [CHR 0xE1] @ ''rio'',
          ''f'' @ [CHR 0xE9] @ ''rias'', ''rescis'' @ [CHR 0xE3] @ ''o'', ''clt'']),
      (''direito_civil'',
         [''civil'', ''fam'' @ [CHR 0xED] @ ''lia'', ''div'' @ [CHR 0xF3] @ ''rcio'',
          ''sucess'' @ [CHR 0xE3] @ ''o'', ''heran'' @ [CHR 0xE7] @ ''a'',
          ''responsabilidade'']),
      (''direito_penal'',
         [''crime'', ''penal'', ''processo'', ''den'' @ [CHR 0xFA] @ ''ncia'',
          ''pris'' @ [CHR 0xE3] @ ''o'', ''senten'' @ [CHR 0xE7] @ ''a'']),
      (''direito_empresarial'',
         [''empresa'', ''societ'' @ [CHR 0xE1] @ ''rio'', ''contrato'',
          ''neg'' @ [CHR 0xF3] @ ''cio'', ''comercial'', ''cnpj''])]"

text \<open>\<open>sum(1 for keyword in keywords if keyword in query_lower)\<close>\<close>

definition keyword_score :: "string \<Rightarrow> string list \<Rightarrow> nat" where
  "keyword_score query_lower keywords =
     length (filter (\<lambda>keyword. str_contains query_lower keyword) keywords)"

text \<open>The loop that fills \<open>tag_scores\<close>: only tags with a positive score get an entry.\<close>

fun score_tags :: "string \<Rightarrow> (string \<times> string list) list \<Rightarrow> (string \<times> nat) list
    \<Rightarrow> (string \<times> nat) list" where
  "score_tags query_lower [] tag_scores = tag_scores"
| "score_tags query_lower ((tag, keywords) # rest) tag_scores =
     (let score = keyword_score query_lower keywords
      in if score > 0 then score_tags query_lower rest (dict_set tag score tag_scores)
         else score_tags query_lower rest tag_scores)"

text \<open>Every tag with its score, whether positive or not (used to state the loop's result).\<close>

definition scored :: "string \<Rightarrow> (string \<times> string list) list \<Rightarrow> (string \<times> nat) list" where
  "scored ql tks = map (\<lambda>tk. (fst tk, keyword_score ql (snd tk))) tks"

text \<open>
  \<open>max(tag_scores, key=tag_scores.get)\<close>: the first key, in the dictionary's order, whose
  value no other key exceeds. It is called on a non-empty dictionary only.
\<close>

fun max_from :: "(string \<times> nat) \<Rightarrow> (string \<times> nat) list \<Rightarrow> (string \<times> nat)" where
  "max_from best [] = best"
| "max_from best (x # xs) = (if snd x > snd best then max_from x xs else max_from best xs)"

definition infer_query_tag :: "string \<Rightarrow> string" where
  "infer_query_tag query =
     (let query_lower = lower query;
          tag_scores = score_tags query_lower tag_keywords []
      in case tag_scores of
           x # xs \<Rightarrow> fst (max_from x xs)
         | [] \<Rightarrow> ''direito_civil'')"

text \<open>
  The tag inference as the specification words it: the lower-cased query is cut into
  tokens at whitespace and common punctuation, each tag counts the tokens that are one of
  its keywords, the highest count wins, the declared order breaks ties, and the fallback
  tag answers when every count is zero.
\<close>

definition is_punct :: "char \<Rightarrow> bool" where
  "is_punct c = (c \<in> set '',.;:!?()[]{}\"'')"

fun tokenize_from :: "string \<Rightarrow> string \<Rightarrow> string list" where
  "tokenize_from cur [] = (if cur = [] then [] else [cur])"
| "tokenize_from cur (c # cs) =
     (if isspace c \<or> is_punct c
      then (if cur = [] then tokenize_from [] cs else cur # tokenize_from [] cs)
      else tokenize_from (cur @ [c]) cs)"

definition spec_tag_count :: "string list \<Rightarrow> string list \<Rightarrow> nat" where
  "spec_tag_count tokens keywords = length (filter (\<lambda>t. t \<in> set keywords) tokens)"

definition spec_infer_tag :: "string \<Rightarrow> string" where
  "spec_infer_tag query =
     (let tokens = tokenize_from [] (lower query);
          counts = map (\<lambda>(tag, keywords). (tag, spec_tag_count tokens keywords)) tag_keywords
      in case filter (\<lambda>(tag, n). n > 0) counts of
           x # xs \<Rightarrow> fst (max_from x xs)
         | [] \<Rightarrow> ''direito_civil'')"

section \<open>Search hits\<close>

text \<open>
  The hits are Python dictionaries. A key that a hit may lack is an optional field; the
  opaque payloads (\<open>metadata\<close>, \<open>meta\<close>) travel unchanged and are left out.
\<close>

datatype source = Semantic | Lexical | External

datatype fusion_source = FromInternal | FromExternal

record rank_source =
  rs_source :: source
  rs_rank :: int
  rrf_contribution :: real

record search_metadata =
  md_query :: string
  md_tenant_id :: string
  md_personalization_enabled :: bool
  md_personalization_alpha :: real
  md_use_internal_rag :: bool
  md_external_docs_count :: nat
  md_internal_results_count :: nat
  md_external_results_count :: nat
  md_final_results_count :: nat

record hit =
  hid :: string
  score :: real
  semantic_rank :: "int option"
  lexical_rank :: "int option"
  external_rank :: "int option"
  content :: string
  source :: source
  rrf_score :: "real option"
  rank_sources :: "rank_source list"
  final_rank :: "int option"
  fusion_source :: "fusion_source option"
  fusion_score :: "real option"
  final_external_rank :: "int option"
  priority :: "real option"
  text_overlap :: "real option"
  src_id :: "string option"
  search_metadata :: "search_metadata option"

definition new_hit :: "string \<Rightarrow> real \<Rightarrow> string \<Rightarrow> source \<Rightarrow> hit" where
  "new_hit i s c src =
     \<lparr>hid = i, score = s, semantic_rank = None, lexical_rank = None, external_rank = None,
      content = c, source = src, rrf_score = None, rank_sources = [], final_rank = None,
      fusion_source = None, fusion_score = None, final_external_rank = None,
      priority = None, text_overlap = None, src_id = None, search_metadata = None\<rparr>"

record external_doc =
  doc_src_id :: "string option"
  doc_text :: "string option"
  doc_priority :: "real option"

record qdrant_point =
  point_id :: string
  point_score :: real
  point_content :: string

text \<open>\<open>for i, x in enumerate(xs)\<close>, counting from \<open>n\<close>.\<close>

fun enumerate_from :: "nat \<Rightarrow> 'a list \<Rightarrow> (nat \<times> 'a) list" where
  "enumerate_from n [] = []"
| "enumerate_from n (x # xs) = (n, x) # enumerate_from (Suc n) xs"

text \<open>
  \<open>sorted(xs, key=f, reverse=True)\<close> and \<open>xs.sort(key=f, reverse=True)\<close>: descending
  by key, elements with equal keys in their original order.
\<close>

definition sorted_desc :: "('a \<Rightarrow> real) \<Rightarrow> 'a list \<Rightarrow> 'a list" where
  "sorted_desc f xs = sort_key (\<lambda>x. - f x) xs"

text \<open>The slice \<open>xs[:k]\<close>; a negative \<open>k\<close> drops the last \<open>-k\<close> elements.\<close>

definition py_prefix :: "int \<Rightarrow> 'a list \<Rightarrow> 'a list" where
  "py_prefix k xs = (if 0 \<le> k then take (nat k) xs else take (length xs - nat (- k)) xs)"

text \<open>\<open>str(i)\<close> for a natural number.\<close>

definition digit_char :: "nat \<Rightarrow> char" where
  "digit_char d = ''0123456789'' ! d"

function str_of_nat :: "nat \<Rightarrow> string" where
  "str_of_nat n = (if n < 10 then [digit_char n] else str_of_nat (n div 10) @ [digit_char (n mod 10)])"
  by pat_completeness auto
termination
  by (relation "measure id") auto

declare str_of_nat.simps [simp del]

fun join :: "string \<Rightarrow> string list \<Rightarrow> string" where
  "join sep [] = []"
| "join sep [w] = w"
| "join sep (w # v # ws) = w @ sep @ join sep (v # ws)"

section \<open>Vectors (\<open>numpy\<close> arrays of one dimension)\<close>

definition np_dot :: "real list \<Rightarrow> real list \<Rightarrow> pyexn + real" where
  "np_dot a b =
     (if length a = length b then Inr (\<Sum>(x, y)\<leftarrow>zip a b. x * y) else Inl ValueError)"

definition np_norm :: "real list \<Rightarrow> real" where
  "np_norm v = sqrt (\<Sum>x\<leftarrow>v. x * x)"

text \<open>
  The square root has no code equations; evaluation by code equations keeps a norm as it
  stands, and the simplifier computes the square roots of squares.
\<close>

declare np_norm_def [code del]

text \<open>
  \<open>q + alpha * c\<close> with \<open>numpy\<close> broadcasting: equal lengths add component by
  component, an array of length one is stretched, anything else raises.
\<close>

definition np_add_scaled :: "real list \<Rightarrow> real \<Rightarrow> real list \<Rightarrow> pyexn + real list" where
  "np_add_scaled q alpha c =
     (if length q = length c then Inr (map (\<lambda>(x, y). x + alpha * y) (zip q c))
      else if length c = 1 then Inr (map (\<lambda>x. x + alpha * hd c) q)
      else if length q = 1 then Inr (map (\<lambda>y. hd q + alpha * y) c)
      else Inl ValueError)"

definition np_scale_div :: "real list \<Rightarrow> real \<Rightarrow> real list" where
  "np_scale_div v n = map (\<lambda>x. x / n) v"

text \<open>
  \<open>np.mean(vectors, axis=0)\<close> of a non-empty list of arrays: the component-wise mean
  when all have one length; ragged input raises.
\<close>

definition np_mean_axis0 :: "real list list \<Rightarrow> pyexn + real list" where
  "np_mean_axis0 vectors =
     (if list_all (\<lambda>v. length v = length (hd vectors)) vectors
      then Inr (map (\<lambda>j. (\<Sum>v\<leftarrow>vectors. v ! j) / real (length vectors))
                  [0..<length (hd vectors)])
      else Inl ValueError)"

section \<open>The key-value store (Redis)\<close>

text \<open>
  A stored byte string is modelled by what \<open>np.frombuffer(_, dtype=float32)\<close> makes of
  it: the numbers of a float32 buffer, or a failure (\<open>Unaligned\<close>, and the metadata text,
  whose keys are never read as vectors). Each call of the client consumes one entry of
  \<open>faults\<close>; \<open>True\<close> makes that call raise.
\<close>

record centroid_meta =
  meta_dimension :: nat
  meta_norm :: real

datatype redis_value = Float32 "real list" | Unaligned | MetaText centroid_meta

record redis =
  kv :: "string \<rightharpoonup> (nat \<times> redis_value)"
  faults :: "bool list"

definition next_fault :: "redis \<Rightarrow> bool \<times> redis" where
  "next_fault r = (case faults r of [] \<Rightarrow> (False, r) | f # fs \<Rightarrow> (f, r\<lparr>faults := fs\<rparr>))"

definition redis_get :: "redis \<Rightarrow> string \<Rightarrow> (pyexn + redis_value option) \<times> redis" where
  "redis_get r k =
     (let (f, r') = next_fault r
      in if f then (Inl ConnectionError, r') else (Inr (map_option snd (kv r' k)), r'))"


section \<open>Personalization (\<open>CentroidPersonalizer\<close>)\<close>

record personalizer =
  redis_client :: redis
  centroid_cache :: "string \<rightharpoonup> (real list \<times> real)"
  cache_ttl :: real

text \<open>
  \<open>get_centroid\<close> at clock reading \<open>now\<close>: a fresh cache entry answers; otherwise the
  store is read, an empty or missing value and every exception give \<open>None\<close>, and a decoded
  vector is cached.
\<close>

definition get_centroid :: "personalizer \<Rightarrow> real \<Rightarrow> string \<Rightarrow> string
    \<Rightarrow> real list option \<times> personalizer" where
  "get_centroid p now tenant_id tag =
     (let cache_key = tenant_id @ '':'' @ tag;
          cached = (case centroid_cache p cache_key of
                      Some (centroid, timestamp) \<Rightarrow>
                        if now - timestamp < cache_ttl p then Some centroid else None
                    | None \<Rightarrow> None)
      in case cached of
           Some centroid \<Rightarrow> (Some centroid, p)
         | None \<Rightarrow>
             (let redis_key = ''centroid:'' @ tenant_id @ '':'' @ tag;
                  (got, r) = redis_get (redis_client p) redis_key;
                  p' = p\<lparr>redis_client := r\<rparr>
              in case got of
                   Inl e \<Rightarrow> (None, p')
                 | Inr None \<Rightarrow> (None, p')
                 | Inr (Some (Float32 centroid)) \<Rightarrow>
                     if centroid = [] then (None, p')
                     else (Some centroid,
                           p'\<lparr>centroid_cache := (centroid_cache p')(cache_key \<mapsto> (centroid, now))\<rparr>)
                 | Inr (Some Unaligned) \<Rightarrow> (None, p')
                 | Inr (Some (MetaText m)) \<Rightarrow> (None, p')))"

text \<open>The arithmetic of \<open>apply_personalization\<close> once a centroid is found.\<close>

definition blend :: "real list \<Rightarrow> real \<Rightarrow> real list \<Rightarrow> pyexn + real list" where
  "blend query_vector alpha centroid =
     (case np_add_scaled query_vector alpha centroid of
        Inl e \<Rightarrow> Inl e
      | Inr adjusted_vector \<Rightarrow>
          (let norm = np_norm adjusted_vector;
               adjusted_vector' = (if norm > 0 then np_scale_div adjusted_vector norm
                                   else adjusted_vector)
           in case np_dot query_vector centroid of
                Inl e \<Rightarrow> Inl e
              | Inr similarity \<Rightarrow> Inr adjusted_vector'))"

definition falsy :: "string option \<Rightarrow> bool" where
  "falsy s = (s = None \<or> s = Some [])"

definition apply_personalization :: "personalizer \<Rightarrow> real \<Rightarrow> real list \<Rightarrow> string
    \<Rightarrow> string option \<Rightarrow> string option \<Rightarrow> real \<Rightarrow> real list \<times> personalizer" where
  "apply_personalization p now query_vector tenant_id query tag alpha =
     (let tag' = (if falsy tag \<and> \<not> falsy query then infer_query_tag (the query)
                  else if falsy tag then ''direito_civil''
                  else the tag);
          (found, p') = get_centroid p now tenant_id tag'
      in case found of
           None \<Rightarrow> (query_vector, p')
         | Some centroid \<Rightarrow>
             (case blend query_vector alpha centroid of
                Inl e \<Rightarrow> (query_vector, p')
              | Inr adjusted_vector \<Rightarrow> (adjusted_vector, p')))"

section \<open>Building centroids (\<open>CentroidCalculator\<close>)\<close>








section \<open>The search bridge (\<open>RagBridge\<close>)\<close>

text \<open>
  The bridge holds its collaborators and its settings. \<open>embed_query\<close> is the embedding
  service (\<open>None\<close> when the call raises), \<open>np_random_rand\<close> the 768 numbers that
  \<open>np.random.rand\<close> draws while the named text is embedded, \<open>qdrant_search\<close> the vector
  index (\<open>None\<close> when the call raises), \<open>the_personalizer\<close> the shared personalizer
  and \<open>clock\<close> the time of the call.
\<close>

record bridge =
  embed_query :: "string \<Rightarrow> real list option"
  np_random_rand :: "string \<Rightarrow> real list"
  qdrant_search :: "real list \<Rightarrow> string \<Rightarrow> int \<Rightarrow> qdrant_point list option"
  the_personalizer :: personalizer
  clock :: real
  default_k :: int
  rrf_k :: int
  personalization_alpha :: real

text \<open>
  \<open>get_query_embedding\<close>: a failure of the embedding service is answered with a random
  vector, divided by its norm.
\<close>

definition get_query_embedding :: "bridge \<Rightarrow> string \<Rightarrow> real list" where
  "get_query_embedding br query =
     (case embed_query br query of
        Some embedding \<Rightarrow> embedding
      | None \<Rightarrow> (let fallback = np_random_rand br query
                 in np_scale_div fallback (np_norm fallback)))"

definition semantic_search :: "bridge \<Rightarrow> real list \<Rightarrow> string \<Rightarrow> int \<Rightarrow> hit list" where
  "semantic_search br query_vector tenant_id k =
     (case qdrant_search br query_vector tenant_id k of
        None \<Rightarrow> []
      | Some results \<Rightarrow>
          map (\<lambda>(i, result).
                 (new_hit (point_id result) (point_score result) (point_content result) Semantic)
                   \<lparr>semantic_rank := Some (int i + 1)\<rparr>)
              (enumerate_from 0 results))"

text \<open>The lexical search is a simulation in the source: it invents up to 15 hits.\<close>

definition lexical_hit :: "string \<Rightarrow> string list \<Rightarrow> nat \<Rightarrow> hit" where
  "lexical_hit tenant_id keywords i =
     (new_hit (''doc_'' @ tenant_id @ ''_'' @ str_of_nat i)
              (max 0.1 (1.0 - real i * 0.1))
              (''Documento '' @ str_of_nat (i + 1) @ '' com palavras-chave: ''
                 @ join '' '' (take 2 keywords))
              Lexical)
       \<lparr>lexical_rank := Some (int i + 1)\<rparr>"

definition lexical_search :: "string \<Rightarrow> string \<Rightarrow> int \<Rightarrow> hit list" where
  "lexical_search query tenant_id k =
     (let keywords = split (lower query)
      in map (lexical_hit tenant_id keywords) [0..<nat (min k 15)])"

subsection \<open>Reciprocal rank fusion\<close>

definition rank_in :: "source \<Rightarrow> hit \<Rightarrow> int" where
  "rank_in src result =
     (case (case src of Semantic \<Rightarrow> semantic_rank result | Lexical \<Rightarrow> lexical_rank result
            | External \<Rightarrow> external_rank result) of
        Some r \<Rightarrow> r
      | None \<Rightarrow> 999)"

definition rrf_value :: "hit \<Rightarrow> real" where
  "rrf_value h = (case rrf_score h of Some s \<Rightarrow> s | None \<Rightarrow> 0)"

definition add_contribution :: "source \<Rightarrow> int \<Rightarrow> real \<Rightarrow> hit \<Rightarrow> hit" where
  "add_contribution src rank c h =
     h\<lparr>rrf_score := Some (rrf_value h + c),
       rank_sources := rank_sources h
         @ [\<lparr>rs_source = src, rs_rank = rank, rrf_contribution = c\<rparr>]\<rparr>"

fun dict_apply :: "'k \<Rightarrow> ('v \<Rightarrow> 'v) \<Rightarrow> ('k \<times> 'v) list \<Rightarrow> ('k \<times> 'v) list" where
  "dict_apply k f [] = []"
| "dict_apply k f ((k', v) # d) =
     (if k' = k then (k', f v) # d else (k', v) # dict_apply k f d)"

text \<open>
  One of the two loops over a ranked list. The division raises when \<open>k + rank\<close> is zero,
  and nothing in \<open>reciprocal_rank_fusion\<close> catches it.
\<close>

fun rrf_pass :: "source \<Rightarrow> int \<Rightarrow> hit list \<Rightarrow> (string \<times> hit) list
    \<Rightarrow> pyexn + (string \<times> hit) list" where
  "rrf_pass src k [] all_docs = Inr all_docs"
| "rrf_pass src k (result # rest) all_docs =
     (let doc_id = hid result;
          rank = rank_in src result;
          all_docs1 = (if map_of all_docs doc_id = None
                       then dict_set doc_id (result\<lparr>rrf_score := Some 0, rank_sources := []\<rparr>)
                              all_docs
                       else all_docs)
      in if k + rank = 0 then Inl ZeroDivisionError
         else rrf_pass src k rest
                (dict_apply doc_id (add_contribution src rank (1.0 / real_of_int (k + rank)))
                   all_docs1))"

definition assign_final_rank :: "hit list \<Rightarrow> hit list" where
  "assign_final_rank results =
     map (\<lambda>(i, result). result\<lparr>final_rank := Some (int i + 1)\<rparr>) (enumerate_from 0 results)"

definition reciprocal_rank_fusion :: "hit list \<Rightarrow> hit list \<Rightarrow> int \<Rightarrow> pyexn + hit list" where
  "reciprocal_rank_fusion semantic_results lexical_results k =
     (case rrf_pass Semantic k semantic_results [] of
        Inl e \<Rightarrow> Inl e
      | Inr all_docs1 \<Rightarrow>
          (case rrf_pass Lexical k lexical_results all_docs1 of
             Inl e \<Rightarrow> Inl e
           | Inr all_docs \<Rightarrow>
               Inr (assign_final_rank (sorted_desc rrf_value (map snd all_docs)))))"

subsection \<open>Scoring the caller's documents\<close>

definition text_overlap_of :: "string \<Rightarrow> string \<Rightarrow> real" where
  "text_overlap_of query text =
     (let query_words = set (split (lower query));
          doc_words = set (split (lower text))
      in if query_words \<noteq> {}
         then real (card (query_words \<inter> doc_words)) / real (card query_words)
         else 0)"

text \<open>
  The body of the loop over the documents. The similarity enters only when a query vector
  is there, the text is not empty and the dot product does not raise.
\<close>

definition ephemeral_hit :: "bridge \<Rightarrow> string \<Rightarrow> real list option \<Rightarrow> nat \<Rightarrow> external_doc \<Rightarrow> hit" where
  "ephemeral_hit br query query_vector i doc =
     (let src = (case doc_src_id doc of Some s \<Rightarrow> s | None \<Rightarrow> ''external_doc_'' @ str_of_nat i);
          text = (case doc_text doc of Some t \<Rightarrow> t | None \<Rightarrow> []);
          prio = (case doc_priority doc of Some p \<Rightarrow> p | None \<Rightarrow> 0.9);
          base_score = prio;
          position_penalty = real i * 0.01;
          final_score0 = max 0.1 (base_score - position_penalty);
          final_score1 =
            (case query_vector of
               None \<Rightarrow> final_score0
             | Some qv \<Rightarrow>
                 if text = [] then final_score0
                 else (case np_dot qv (get_query_embedding br (take 1000 text)) of
                         Inr similarity \<Rightarrow> (final_score0 * 0.7) + (similarity * 0.3)
                       | Inl e \<Rightarrow> final_score0));
          overlap = text_overlap_of query text;
          final_score = (final_score1 * 0.8) + (overlap * 0.2)
      in (new_hit src final_score text External)
           \<lparr>external_rank := Some (int i + 1), priority := Some prio,
            text_overlap := Some overlap, src_id := Some src\<rparr>)"

definition process_external_docs :: "bridge \<Rightarrow> external_doc list \<Rightarrow> string \<Rightarrow> real list option
    \<Rightarrow> hit list" where
  "process_external_docs br external_docs query query_vector =
     (if external_docs = [] then []
      else map (\<lambda>(i, h). h\<lparr>final_external_rank := Some (int i + 1)\<rparr>)
             (enumerate_from 0
               (sorted_desc score
                 (map (\<lambda>(i, doc). ephemeral_hit br query query_vector i doc)
                    (enumerate_from 0 external_docs)))))"

subsection \<open>Combining internal and external hits\<close>

definition get_sort_key :: "hit \<Rightarrow> real" where
  "get_sort_key result =
     (let base_score = score result;
          rrf = rrf_value result;
          effective_score = (if rrf > 0 then rrf else base_score)
      in if fusion_source result = Some FromExternal then effective_score * 1.2
         else effective_score)"

definition fuse_internal_and_external :: "hit list \<Rightarrow> hit list \<Rightarrow> hit list" where
  "fuse_internal_and_external internal_results external_results =
     (let combined_results =
            map (\<lambda>result. result\<lparr>fusion_source := Some FromInternal\<rparr>) internal_results
          @ map (\<lambda>result. result\<lparr>fusion_source := Some FromExternal\<rparr>) external_results
      in map (\<lambda>(i, result).
                result\<lparr>final_rank := Some (int i + 1),
                       fusion_score := Some (get_sort_key result)\<rparr>)
           (enumerate_from 0 (sorted_desc get_sort_key combined_results)))"

subsection \<open>The federated search\<close>

text \<open>\<open>a or b\<close> on an optional number: \<open>None\<close> and zero are false.\<close>

definition or_default :: "real option \<Rightarrow> real \<Rightarrow> real" where
  "or_default a d = (case a of None \<Rightarrow> d | Some x \<Rightarrow> if x = 0 then d else x)"

definition docs_given :: "external_doc list option \<Rightarrow> external_doc list" where
  "docs_given external_docs = (case external_docs of None \<Rightarrow> [] | Some ds \<Rightarrow> ds)"

definition personalize_query_vector :: "bridge \<Rightarrow> real list \<Rightarrow> string \<Rightarrow> string \<Rightarrow> real
    \<Rightarrow> real list" where
  "personalize_query_vector br query_vector tenant_id query alpha =
     fst (apply_personalization (the_personalizer br) (clock br) query_vector tenant_id
            (Some query) None alpha)"

text \<open>
  The query vector of the search: none without the internal search; otherwise the
  embedding, personalized when asked. The dot product computed for the log raises when
  the two vectors differ in length.
\<close>

definition search_vector :: "bridge \<Rightarrow> string \<Rightarrow> string \<Rightarrow> real option \<Rightarrow> bool \<Rightarrow> bool
    \<Rightarrow> pyexn + real list option" where
  "search_vector br query tenant_id alpha_arg enable_personalization use_internal_rag =
     (if use_internal_rag
      then (let query_vector = get_query_embedding br query
            in if enable_personalization
               then (let alpha = or_default alpha_arg (personalization_alpha br);
                         personalized_vector =
                           personalize_query_vector br query_vector tenant_id query alpha
                     in case np_dot query_vector personalized_vector of
                          Inl e \<Rightarrow> Inl e
                        | Inr similarity \<Rightarrow> Inr (Some personalized_vector))
               else Inr (Some query_vector))
      else Inr None)"

text \<open>
  The dictionary \<open>all_results\<close> has at most the keys \<open>semantic\<close>, \<open>lexical\<close> and
  \<open>ephemeral\<close>, inserted in this order: three optional lists.
\<close>

definition fuse_sources :: "bridge \<Rightarrow> hit list option \<Rightarrow> hit list option \<Rightarrow> hit list option
    \<Rightarrow> pyexn + hit list" where
  "fuse_sources br sem_hits lex_hits eph_hits =
     (let present = length (filter (\<lambda>x. x \<noteq> None) [sem_hits, lex_hits, eph_hits])
      in if present = 1
         then Inr (the (hd (filter (\<lambda>x. x \<noteq> None) [sem_hits, lex_hits, eph_hits])))
         else
           (let semantic_results = (case sem_hits of Some xs \<Rightarrow> xs | None \<Rightarrow> []);
                lexical_results = (case lex_hits of Some xs \<Rightarrow> xs | None \<Rightarrow> []);
                ephemeral_results = (case eph_hits of Some xs \<Rightarrow> xs | None \<Rightarrow> [])
            in case (if semantic_results \<noteq> [] \<or> lexical_results \<noteq> []
                     then reciprocal_rank_fusion semantic_results lexical_results (rrf_k br)
                     else Inr []) of
                 Inl e \<Rightarrow> Inl e
               | Inr internal_fused \<Rightarrow>
                   if ephemeral_results \<noteq> []
                   then Inr (fuse_internal_and_external internal_fused ephemeral_results)
                   else Inr internal_fused))"

definition federated_search_body :: "bridge \<Rightarrow> string \<Rightarrow> string \<Rightarrow> int \<Rightarrow> real option \<Rightarrow> bool
    \<Rightarrow> external_doc list option \<Rightarrow> bool \<Rightarrow> pyexn + hit list" where
  "federated_search_body br query tenant_id k_total alpha_arg enable_personalization
       external_docs use_internal_rag =
     (if \<not> use_internal_rag \<and> docs_given external_docs = [] then Inr []
      else
        (case search_vector br query tenant_id alpha_arg enable_personalization
                use_internal_rag of
           Inl e \<Rightarrow> Inl e
         | Inr query_vector \<Rightarrow>
        (let k_search = min (k_total * 2) 50;
             sem_hits = (case query_vector of
                      Some qv \<Rightarrow> if use_internal_rag
                                 then Some (semantic_search br qv tenant_id k_search) else None
                    | None \<Rightarrow> None);
             lex_hits = (case query_vector of
                      Some qv \<Rightarrow> if use_internal_rag
                                 then Some (lexical_search query tenant_id k_search) else None
                    | None \<Rightarrow> None);
             eph_hits = (if docs_given external_docs \<noteq> []
                    then Some (process_external_docs br (docs_given external_docs) query
                                 query_vector)
                    else None)
         in if sem_hits = None \<and> lex_hits = None \<and> eph_hits = None then Inr []
            else
              (case fuse_sources br sem_hits lex_hits eph_hits of
                 Inl e \<Rightarrow> Inl e
               | Inr fused_results \<Rightarrow>
                   (let final_results = py_prefix k_total fused_results;
                        metadata =
                          \<lparr>md_query = query, md_tenant_id = tenant_id,
                           md_personalization_enabled = enable_personalization,
                           md_personalization_alpha =
                             or_default alpha_arg (personalization_alpha br),
                           md_use_internal_rag = use_internal_rag,
                           md_external_docs_count = length (docs_given external_docs),
                           md_internal_results_count =
                             length (case sem_hits of Some xs \<Rightarrow> xs | None \<Rightarrow> [])
                             + length (case lex_hits of Some xs \<Rightarrow> xs | None \<Rightarrow> []),
                           md_external_results_count =
                             length (case eph_hits of Some xs \<Rightarrow> xs | None \<Rightarrow> []),
                           md_final_results_count = length final_results\<rparr>
                    in Inr (map (\<lambda>result. result\<lparr>search_metadata := Some metadata\<rparr>)
                              final_results))))))"

text \<open>
  The whole body sits in \<open>try\<close>; the handler logs the exception and returns the empty
  list. The caller therefore always receives a list, never one of the error kinds.
\<close>

definition federated_search :: "bridge \<Rightarrow> string \<Rightarrow> string \<Rightarrow> int \<Rightarrow> real option \<Rightarrow> bool
    \<Rightarrow> external_doc list option \<Rightarrow> bool \<Rightarrow> error + hit list" where
  "federated_search br query tenant_id k_total alpha_arg enable_personalization
       external_docs use_internal_rag =
     (case federated_search_body br query tenant_id k_total alpha_arg enable_personalization
             external_docs use_internal_rag of
        Inl e \<Rightarrow> Inr []
      | Inr final_results \<Rightarrow> Inr final_results)"

section \<open>Constructors and small environments\<close>

text \<open>\<open>RagBridge.__init__\<close> and \<open>CentroidPersonalizer.__init__\<close> with their defaults.\<close>

definition RagBridge :: "(string \<Rightarrow> real list option) \<Rightarrow> (string \<Rightarrow> real list)
    \<Rightarrow> (real list \<Rightarrow> string \<Rightarrow> int \<Rightarrow> qdrant_point list option) \<Rightarrow> personalizer \<Rightarrow> real \<Rightarrow> bridge" where
  "RagBridge embedder draws index p now =
     \<lparr>embed_query = embedder, np_random_rand = draws, qdrant_search = index,
      the_personalizer = p, clock = now,
      default_k = 20, rrf_k = 60, personalization_alpha = 0.25\<rparr>"

definition CentroidPersonalizer :: "redis \<Rightarrow> personalizer" where
  "CentroidPersonalizer r = \<lparr>redis_client = r, centroid_cache = Map.empty, cache_ttl = 300\<rparr>"

text \<open>
  Environments for concrete runs: a store without entries, an embedding service that is
  down, one that answers a fixed vector, and vector indexes that are down, empty or hold
  the points given.
\<close>

definition empty_redis :: redis where
  "empty_redis = \<lparr>kv = Map.empty, faults = []\<rparr>"

definition embedder_down :: "string \<Rightarrow> real list option" where
  "embedder_down text = None"

definition embedder_const :: "real list \<Rightarrow> string \<Rightarrow> real list option" where
  "embedder_const v text = Some v"

definition draws_const :: "real list \<Rightarrow> string \<Rightarrow> real list" where
  "draws_const v text = v"

definition index_down :: "real list \<Rightarrow> string \<Rightarrow> int \<Rightarrow> qdrant_point list option" where
  "index_down v tenant_id k = None"

definition index_of :: "qdrant_point list \<Rightarrow> real list \<Rightarrow> string \<Rightarrow> int \<Rightarrow> qdrant_point list option" where
  "index_of points v tenant_id k = Some (take (nat k) points)"

definition bridge_offline :: bridge where
  "bridge_offline =
     RagBridge embedder_down (draws_const [3, 4]) index_down (CentroidPersonalizer empty_redis) 0"

definition bridge_no_embedder :: bridge where
  "bridge_no_embedder =
     RagBridge embedder_down (draws_const [3, 4])
       (index_of [\<lparr>point_id = ''p1'', point_score = 0.5, point_content = ''lei''\<rparr>])
       (CentroidPersonalizer empty_redis) 0"

definition doc_d1 :: external_doc where
  "doc_d1 = \<lparr>doc_src_id = Some ''d1'', doc_text = Some ''x'', doc_priority = Some 0.9\<rparr>"






text \<open>
  The order of first appearance in a list, and the sum that reciprocal rank fusion forms
  for a document: one term \<open>1 / (k + rank)\<close> for each of its entries in the two lists.
\<close>

fun first_seen :: "'a list \<Rightarrow> 'a list" where
  "first_seen [] = []"
| "first_seen (x # xs) = x # filter (\<lambda>y. y \<noteq> x) (first_seen xs)"

definition rrf_term :: "source \<Rightarrow> int \<Rightarrow> hit list \<Rightarrow> string \<Rightarrow> real" where
  "rrf_term src k results d =
     (\<Sum>r\<leftarrow>filter (\<lambda>r. hid r = d) results. 1 / real_of_int (k + rank_in src r))"

definition rrf_total :: "int \<Rightarrow> hit list \<Rightarrow> hit list \<Rightarrow> string \<Rightarrow> real" where
  "rrf_total k semantic_results lexical_results d =
     rrf_term Semantic k semantic_results d + rrf_term Lexical k lexical_results d"

definition bridge_tie :: bridge where
  "bridge_tie =
     RagBridge (embedder_const [1, 0]) (draws_const [3, 4])
       (index_of [\<lparr>point_id = ''doc_T1_1'', point_score = 0.9, point_content = ''b''\<rparr>,
                  \<lparr>point_id = ''doc_T1_0'', point_score = 0.8, point_content = ''a''\<rparr>])
       (CentroidPersonalizer empty_redis) 0"

text \<open>
  For the proofs about the fusion: the invariant of the dictionary \<open>all_docs\<close>, the
  score it holds for a document, and one round of the loop when the division succeeds.
\<close>

definition dict_ok :: "(string \<times> hit) list \<Rightarrow> bool" where
  "dict_ok d = (distinct (map fst d) \<and> (\<forall>(i, h)\<in>set d. hid h = i \<and> rrf_score h \<noteq> None))"

definition dict_val :: "(string \<times> hit) list \<Rightarrow> string \<Rightarrow> real" where
  "dict_val d i = (case map_of d i of Some h \<Rightarrow> rrf_value h | None \<Rightarrow> 0)"

definition rrf_step :: "source \<Rightarrow> int \<Rightarrow> hit \<Rightarrow> (string \<times> hit) list \<Rightarrow> (string \<times> hit) list" where
  "rrf_step src k result all_docs =
     dict_apply (hid result)
       (add_contribution src (rank_in src result) (1.0 / real_of_int (k + rank_in src result)))
       (if map_of all_docs (hid result) = None
        then dict_set (hid result) (result\<lparr>rrf_score := Some 0, rank_sources := []\<rparr>) all_docs
        else all_docs)"

text \<open>
  The list that \<open>fuse_internal_and_external\<close> sorts, and what identifies a candidate in
  it: its origin, its identifier and its effective score.
\<close>

definition combined_results :: "hit list \<Rightarrow> hit list \<Rightarrow> hit list" where
  "combined_results internal_results external_results =
     map (\<lambda>result. result\<lparr>fusion_source := Some FromInternal\<rparr>) internal_results
     @ map (\<lambda>result. result\<lparr>fusion_source := Some FromExternal\<rparr>) external_results"

definition candidate :: "hit \<Rightarrow> fusion_source option \<times> string \<times> real" where
  "candidate h = (fusion_source h, hid h, get_sort_key h)"

definition doc_b :: external_doc where
  "doc_b = \<lparr>doc_src_id = Some ''b'', doc_text = Some ''z'', doc_priority = Some 0\<rparr>"

definition doc_a :: external_doc where
  "doc_a = \<lparr>doc_src_id = Some ''a'', doc_text = Some ''z'', doc_priority = Some 0\<rparr>"

definition hit_p :: hit where
  "hit_p = (new_hit ''p'' 0.5 ''lei'' Semantic)
             \<lparr>semantic_rank := Some 1, rrf_score := Some (1 / 61), final_rank := Some 1\<rparr>"



text \<open>A list of hits whose final ranks are 1, 2, ... in order.\<close>

definition ranked :: "hit list \<Rightarrow> bool" where
  "ranked hs = (map final_rank hs = map (\<lambda>i. Some (int i + 1)) [0..<length hs])"

section \<open>Lists, enumeration and sorting\<close>

lemma enumerate_from_snd: "map snd (enumerate_from n xs) = xs"
  by (induction xs arbitrary: n) auto

lemma enumerate_from_fst: "map fst (enumerate_from n xs) = [n..<n + length xs]"
  by (induction xs arbitrary: n) (auto simp: upt_rec)

lemma enumerate_from_length: "length (enumerate_from n xs) = length xs"
  by (induction xs arbitrary: n) auto

lemma mset_sorted_desc: "mset (sorted_desc f xs) = mset xs"
  by (simp add: sorted_desc_def)

section \<open>Properties of the tag inference\<close>

lemma max_from_decomp:
  "\<exists>pre x post. best # xs = pre @ x # post \<and> max_from best xs = x
     \<and> (\<forall>y\<in>set pre. snd y < snd x) \<and> (\<forall>y\<in>set post. snd y \<le> snd x)"
proof (induction xs arbitrary: best)
  case Nil
  show ?case by (rule exI[of _ "[]"]) simp
next
  case (Cons a xs)
  show ?case
  proof (cases "snd a > snd best")
    case True
    from Cons.IH[of a] obtain pre x post where
      d: "a # xs = pre @ x # post" "max_from a xs = x"
         "\<forall>y\<in>set pre. snd y < snd x" "\<forall>y\<in>set post. snd y \<le> snd x" by blast
    have "snd a \<le> snd x"
    proof (cases pre)
      case Nil then show ?thesis using d(1) by simp
    next
      case (Cons p ps) then show ?thesis using d(1,3) by auto
    qed
    then have "\<forall>y\<in>set (best # pre). snd y < snd x" using d(3) True by auto
    moreover have "best # a # xs = (best # pre) @ x # post" using d(1) by simp
    ultimately show ?thesis using d(2,4) True by (metis max_from.simps(2))
  next
    case False
    from Cons.IH[of best] obtain pre x post where
      d: "best # xs = pre @ x # post" "max_from best xs = x"
         "\<forall>y\<in>set pre. snd y < snd x" "\<forall>y\<in>set post. snd y \<le> snd x" by blast
    show ?thesis
    proof (cases pre)
      case Nil
      then have x: "x = best" "post = xs" using d(1) by auto
      have "best # a # xs = [] @ x # (a # post)" using x by simp
      moreover have "\<forall>y\<in>set (a # post). snd y \<le> snd x" using d(4) False x by auto
      ultimately show ?thesis using d(2) False by (metis max_from.simps(2) empty_iff list.set(1))
    next
      case (Cons p ps)
      then have p: "p = best" "xs = ps @ x # post" using d(1) by auto
      have "best # a # xs = (best # a # ps) @ x # post" using p by simp
      moreover have "snd best < snd x" using d(3) Cons p by auto
      then have "\<forall>y\<in>set (best # a # ps). snd y < snd x" using d(3) Cons False by auto
      ultimately show ?thesis using d(2,4) False by (metis max_from.simps(2))
    qed
  qed
qed

lemma filter_eq_appendD:
  "filter P xs = ys @ z # zs \<Longrightarrow>
   \<exists>us vs. xs = us @ z # vs \<and> filter P us = ys \<and> filter P vs = zs \<and> P z"
proof (induction ys arbitrary: xs)
  case Nil
  then obtain us vs where "xs = us @ z # vs" "\<forall>u\<in>set us. \<not> P u" "P z" "zs = filter P vs"
    by (auto simp: filter_eq_Cons_iff)
  then show ?case by (intro exI[of _ us] exI[of _ vs]) (auto simp: filter_empty_conv)
next
  case (Cons y ys)
  then obtain us vs where uv: "xs = us @ y # vs" "\<forall>u\<in>set us. \<not> P u" "P y"
      "ys @ z # zs = filter P vs"
    by (auto simp: filter_eq_Cons_iff)
  from Cons.IH[OF uv(4)[symmetric]] obtain us' vs' where
    r: "vs = us' @ z # vs'" "filter P us' = ys" "filter P vs' = zs" "P z" by blast
  have "filter P us = []" using uv(2) by (simp add: filter_empty_conv)
  then show ?case using uv r
    by (intro exI[of _ "us @ y # us'"] exI[of _ vs']) simp
qed

lemma dict_set_fresh: "k \<notin> fst ` set d \<Longrightarrow> dict_set k v d = d @ [(k, v)]"
  by (induction d) auto

lemma score_tags_filter:
  "distinct (map fst tks) \<Longrightarrow> fst ` set acc \<inter> fst ` set tks = {} \<Longrightarrow>
   score_tags ql tks acc = acc @ filter (\<lambda>p. snd p > 0) (scored ql tks)"
proof (induction tks arbitrary: acc)
  case Nil
  then show ?case by (simp add: scored_def)
next
  case (Cons tk tks)
  obtain tag kws where tk: "tk = (tag, kws)" by (cases tk)
  have fresh: "tag \<notin> fst ` set acc" using Cons.prems(2) tk by auto
  have d: "distinct (map fst tks)" using Cons.prems(1) by simp
  show ?case
  proof (cases "keyword_score ql kws > 0")
    case True
    have "fst ` set (acc @ [(tag, keyword_score ql kws)]) \<inter> fst ` set tks = {}"
      using Cons.prems tk by auto
    from Cons.IH[OF d this] True fresh show ?thesis
      by (simp add: tk dict_set_fresh scored_def)
  next
    case False
    have "fst ` set acc \<inter> fst ` set tks = {}" using Cons.prems(2) by auto
    from Cons.IH[OF d this] False show ?thesis by (simp add: tk scored_def)
  qed
qed

lemma distinct_tags: "distinct (map fst tag_keywords)"
  by (simp add: tag_keywords_def)

lemma infer_fallback:
  assumes "\<forall>tk\<in>set tag_keywords. keyword_score (lower query) (snd tk) = 0"
  shows "infer_query_tag query = ''direito_civil''"
proof -
  have "filter (\<lambda>p. snd p > 0) (scored (lower query) tag_keywords) = []"
    using assms by (auto simp: scored_def filter_empty_conv)
  then show ?thesis
    using score_tags_filter[OF distinct_tags, of "[]" "lower query"]
    by (simp add: infer_query_tag_def)
qed

lemma infer_best:
  assumes "\<not> (\<forall>tk\<in>set tag_keywords. keyword_score (lower query) (snd tk) = 0)"
  shows "\<exists>pre tk post. tag_keywords = pre @ tk # post \<and> infer_query_tag query = fst tk
     \<and> 0 < keyword_score (lower query) (snd tk)
     \<and> (\<forall>p\<in>set pre. keyword_score (lower query) (snd p) < keyword_score (lower query) (snd tk))
     \<and> (\<forall>p\<in>set post. keyword_score (lower query) (snd p) \<le> keyword_score (lower query) (snd tk))"
proof -
  let ?ql = "lower query"
  let ?P = "\<lambda>p::string \<times> nat. snd p > 0"
  let ?f = "\<lambda>tk::string \<times> string list. (fst tk, keyword_score ?ql (snd tk))"
  let ?ts = "filter ?P (scored ?ql tag_keywords)"
  have ts: "score_tags ?ql tag_keywords [] = ?ts"
    using score_tags_filter[OF distinct_tags, of "[]" ?ql] by simp
  have "?ts \<noteq> []" using assms by (auto simp: scored_def filter_empty_conv)
  then obtain b bs where bs: "?ts = b # bs" by (cases ?ts) auto
  from max_from_decomp[of b bs] obtain pre' x post' where
    d: "b # bs = pre' @ x # post'" "max_from b bs = x"
       "\<forall>y\<in>set pre'. snd y < snd x" "\<forall>y\<in>set post'. snd y \<le> snd x" by blast
  have res: "infer_query_tag query = fst x"
    using ts bs d(2) by (simp add: infer_query_tag_def)
  have "filter ?P (scored ?ql tag_keywords) = pre' @ x # post'" using bs d(1) by simp
  from filter_eq_appendD[OF this] obtain us vs where
    uv: "scored ?ql tag_keywords = us @ x # vs" "pre' = filter ?P us" "post' = filter ?P vs" "?P x"
    by blast
  from uv(1) obtain pre tk post where
    m: "tag_keywords = pre @ tk # post" "us = map ?f pre" "x = ?f tk" "vs = map ?f post"
    unfolding scored_def by (auto simp: map_eq_append_conv map_eq_Cons_conv)
  have pos: "0 < keyword_score ?ql (snd tk)" using uv(4) m(3) by simp
  have "\<forall>p\<in>set pre. keyword_score ?ql (snd p) < keyword_score ?ql (snd tk)"
  proof
    fix p assume p: "p \<in> set pre"
    show "keyword_score ?ql (snd p) < keyword_score ?ql (snd tk)"
    proof (cases "keyword_score ?ql (snd p) > 0")
      case True
      then have "?f p \<in> set pre'" using p uv(2) m(2) by auto
      then show ?thesis using d(3) m(3) by fastforce
    next
      case False then show ?thesis using pos by simp
    qed
  qed
  moreover have "\<forall>p\<in>set post. keyword_score ?ql (snd p) \<le> keyword_score ?ql (snd tk)"
  proof
    fix p assume p: "p \<in> set post"
    show "keyword_score ?ql (snd p) \<le> keyword_score ?ql (snd tk)"
    proof (cases "keyword_score ?ql (snd p) > 0")
      case True
      then have "?f p \<in> set post'" using p uv(3) m(4) by auto
      then show ?thesis using d(4) m(3) by fastforce
    next
      case False then show ?thesis by simp
    qed
  qed
  ultimately have "tag_keywords = pre @ tk # post \<and> infer_query_tag query = fst tk
     \<and> 0 < keyword_score ?ql (snd tk)
     \<and> (\<forall>p\<in>set pre. keyword_score ?ql (snd p) < keyword_score ?ql (snd tk))
     \<and> (\<forall>p\<in>set post. keyword_score ?ql (snd p) \<le> keyword_score ?ql (snd tk))"
    using m(1) res m(3) pos by simp
  then show ?thesis by blast
qed

lemmas str_eval = lower_def lower_char_def isupper_def isspace_def is_punct_def
  keyword_score_def tag_keywords_def spec_tag_count_def

text \<open>
  Claim C9, as the code has it. The query is lower-cased but not cut into tokens: a tag's
  count is the number of its keywords that occur somewhere in the lower-cased query as a
  substring, each keyword counted once. The answer is the tag with the highest count, the
  earliest in the declared order among equals, and \<open>direito_civil\<close> when every count is
  zero. Being a function of the query alone, two runs on one query agree.
\<close>

theorem infer_query_tag_substring_count:
  "(if \<forall>tk\<in>set tag_keywords. keyword_score (lower query) (snd tk) = 0
    then infer_query_tag query = ''direito_civil''
    else \<exists>pre tk post. tag_keywords = pre @ tk # post \<and> infer_query_tag query = fst tk
       \<and> (\<forall>p\<in>set pre. keyword_score (lower query) (snd p) < keyword_score (lower query) (snd tk))
       \<and> (\<forall>p\<in>set post. keyword_score (lower query) (snd p) \<le> keyword_score (lower query) (snd tk)))"
proof (cases "\<forall>tk\<in>set tag_keywords. keyword_score (lower query) (snd tk) = 0")
  case True
  then show ?thesis using infer_fallback by simp
next
  case False
  from infer_best[OF False] obtain pre tk post where
    "tag_keywords = pre @ tk # post \<and> infer_query_tag query = fst tk
     \<and> (\<forall>p\<in>set pre. keyword_score (lower query) (snd p) < keyword_score (lower query) (snd tk))
     \<and> (\<forall>p\<in>set post. keyword_score (lower query) (snd p) \<le> keyword_score (lower query) (snd tk))"
    by blast
  then show ?thesis using False by (simp only: if_False) blast
qed

text \<open>The theorem at a query without any keyword.\<close>

theorem infer_query_tag_substring_count_witness:
  "map (\<lambda>tk. keyword_score (lower ''Bom dia'') (snd tk)) tag_keywords = [0, 0, 0, 0, 0, 0]
   \<and> infer_query_tag ''Bom dia'' = ''direito_civil''"
  using infer_query_tag_substring_count [of "''Bom dia''"]
  by (simp add: str_eval)

text \<open>
  Claim C9 as stated counts keywords among the tokens. The one token of \<open>casamento\<close>
  is no keyword, so the token count answers the fallback tag; the code finds the keyword
  \<open>casa\<close> inside it.
\<close>

theorem infer_query_tag_tokens_counterexample:
  "infer_query_tag ''casamento'' = ''contratos_imobiliarios''
   \<and> spec_infer_tag ''casamento'' = ''direito_civil''
   \<and> infer_query_tag ''casamento'' \<noteq> spec_infer_tag ''casamento''"
  by (simp add: infer_query_tag_def spec_infer_tag_def str_eval)

section \<open>Properties of the federated search\<close>

lemma federated_search_returns:
  "\<exists>hits. federated_search br query tenant_id k_total alpha_arg pers external_docs use_internal
     = Inr hits"
  by (simp add: federated_search_def split: sum.splits)

lemma federated_search_no_source:
  assumes "docs_given external_docs = []"
  shows "federated_search br query tenant_id k_total alpha_arg pers external_docs False = Inr []"
  using assms by (simp add: federated_search_def federated_search_body_def)

text \<open>
  Claim C6, as the code has it: a request without the internal search and without
  external documents is answered with the empty list of hits; no error is returned.
\<close>

theorem federated_search_nothing_to_search:
  "docs_given external_docs = [] \<Longrightarrow>
   federated_search br query tenant_id k_total alpha_arg pers external_docs False = Inr []"
  by (rule federated_search_no_source)

text \<open>The theorem for a request that names no documents at all.\<close>

theorem federated_search_nothing_to_search_witness:
  "docs_given None = []
   \<and> federated_search bridge_offline ''x'' ''T1'' 3 None True None False = Inr []"
  using federated_search_nothing_to_search [of None bridge_offline "''x''" "''T1''" 3 None True]
  by (simp add: docs_given_def)

text \<open>
  Claim C6 as stated expects the error \<open>InvalidArgument\<close>; the request with an empty
  list of documents and no internal search returns the empty list instead.
\<close>

theorem federated_search_invalid_counterexample:
  "federated_search bridge_offline ''x'' ''T1'' 3 None True (Some []) False = Inr []
   \<and> federated_search bridge_offline ''x'' ''T1'' 3 None True (Some []) False
       \<noteq> Inl InvalidArgument"
  by (simp add: federated_search_def federated_search_body_def docs_given_def)

text \<open>
  Claim C7, as the code has it: when the embedding service fails, the query vector is a
  random vector divided by its norm; the search goes on with it (it is the search vector
  when personalization is off) and returns a list of hits.
\<close>

theorem embedding_failure_substitute:
  assumes "embed_query br query = None"
  shows "get_query_embedding br query
           = np_scale_div (np_random_rand br query) (np_norm (np_random_rand br query))
       \<and> search_vector br query tenant_id alpha_arg False True
           = Inr (Some (np_scale_div (np_random_rand br query) (np_norm (np_random_rand br query))))
       \<and> (\<exists>hits. federated_search br query tenant_id k_total alpha_arg pers external_docs
                    use_internal = Inr hits)"
  using assms federated_search_returns
  by (simp add: get_query_embedding_def search_vector_def Let_def)

text \<open>The theorem with the embedding service down and the draws \<open>3, 4\<close>.\<close>

theorem embedding_failure_substitute_witness:
  "embed_query bridge_no_embedder ''x'' = None
   \<and> get_query_embedding bridge_no_embedder ''x'' = [3 / 5, 4 / 5]
   \<and> search_vector bridge_no_embedder ''x'' ''T1'' None False True = Inr (Some [3 / 5, 4 / 5])"
proof -
  have h: "embed_query bridge_no_embedder ''x'' = None"
    by (simp add: bridge_no_embedder_def RagBridge_def embedder_down_def)
  have n: "np_scale_div (np_random_rand bridge_no_embedder ''x'')
             (np_norm (np_random_rand bridge_no_embedder ''x'')) = [3 / 5, 4 / 5]"
    by (simp add: bridge_no_embedder_def RagBridge_def draws_const_def np_norm_def
        np_scale_div_def)
  show ?thesis
    using h embedding_failure_substitute [OF h, of "''T1''" None 1 False None True] n
    by simp
qed

text \<open>
  Claim C7 as stated expects the error \<open>Unavailable\<close>. With the embedding service down,
  the search for one hit returns the point that the vector index found for the substitute
  vector.
\<close>

theorem embedding_failure_counterexample:
  "embed_query bridge_no_embedder ''x'' = None
   \<and> map_sum id (map hid) (federated_search bridge_no_embedder ''x'' ''T1'' 1 None False None True)
       = Inr [''p1'']
   \<and> federated_search bridge_no_embedder ''x'' ''T1'' 1 None False None True \<noteq> Inl Unavailable"
proof -
  have "map_sum id (map hid)
          (federated_search bridge_no_embedder ''x'' ''T1'' 1 None False None True)
        = Inr [''p1'']"
    by code_simp
  moreover have "embed_query bridge_no_embedder ''x'' = None"
    by (simp add: bridge_no_embedder_def RagBridge_def embedder_down_def)
  ultimately show ?thesis by auto
qed



section \<open>Properties of the scores of external documents\<close>










section \<open>Properties of the reciprocal rank fusion\<close>

lemma map_of_dict_set: "map_of (dict_set k v d) = (map_of d)(k \<mapsto> v)"
  by (induction d) (auto simp: fun_eq_iff)

lemma map_of_dict_apply:
  "map_of (dict_apply k f d) = (map_of d)(k := map_option f (map_of d k))"
  by (induction d) (auto simp: fun_eq_iff)

lemma keys_dict_apply: "map fst (dict_apply k f d) = map fst d"
  by (induction d) auto

lemma keys_dict_set:
  "map fst (dict_set k v d) = (if k \<in> set (map fst d) then map fst d else map fst d @ [k])"
  by (induction d) (auto simp: rev_image_eqI)

lemma set_dict_apply:
  "(i, h) \<in> set (dict_apply k f d) \<Longrightarrow> (i, h) \<in> set d \<or> (\<exists>v. (k, v) \<in> set d \<and> i = k \<and> h = f v)"
  by (induction d) (fastforce split: if_splits)+

lemma set_dict_set: "(i, h) \<in> set (dict_set k v d) \<Longrightarrow> (i, h) \<in> set d \<or> (i = k \<and> h = v)"
  by (induction d) (auto split: if_splits)

lemma set_first_seen: "set (first_seen xs) = set xs"
  by (induction xs) auto

lemma distinct_first_seen: "distinct (first_seen xs)"
  by (induction xs) (auto simp: set_first_seen)

lemma first_seen_append:
  "first_seen (xs @ ys) = first_seen xs @ filter (\<lambda>y. y \<notin> set xs) (first_seen ys)"
proof (induction xs)
  case Nil
  show ?case by simp
next
  case (Cons x xs)
  have "filter (\<lambda>y. y \<noteq> x) (filter (\<lambda>y. y \<notin> set xs) (first_seen ys))
      = filter (\<lambda>y. y \<notin> set (x # xs)) (first_seen ys)"
    by (auto intro: filter_cong)
  then show ?case using Cons by simp
qed

lemma rrf_pass_Cons:
  "rrf_pass src k (result # rest) d =
     (if k + rank_in src result = 0 then Inl ZeroDivisionError
      else rrf_pass src k rest (rrf_step src k result d))"
  by (simp add: rrf_step_def Let_def)

declare rrf_pass.simps(2) [simp del]

lemma rrf_step_keys:
  "map fst (rrf_step src k r d)
     = (if hid r \<in> set (map fst d) then map fst d else map fst d @ [hid r])"
  by (auto simp: rrf_step_def keys_dict_apply keys_dict_set map_of_eq_None_iff image_iff)

lemma rrf_step_ok: "dict_ok d \<Longrightarrow> dict_ok (rrf_step src k r d)"
  unfolding dict_ok_def
proof (intro conjI, goal_cases)
  case 1
  then show ?case by (auto simp: rrf_step_keys)
next
  case 2
  show ?case
  proof (clarify)
    fix i h assume ih: "(i, h) \<in> set (rrf_step src k r d)"
    let ?f = "add_contribution src (rank_in src r) (1.0 / real_of_int (k + rank_in src r))"
    let ?d1 = "if map_of d (hid r) = None
        then dict_set (hid r) (r\<lparr>rrf_score := Some 0, rank_sources := []\<rparr>) d else d"
    have d1: "\<forall>(i, h)\<in>set ?d1. hid h = i \<and> rrf_score h \<noteq> None"
      using 2 by (auto dest!: set_dict_set)
    from ih have "(i, h) \<in> set ?d1 \<or> (\<exists>v. (hid r, v) \<in> set ?d1 \<and> i = hid r \<and> h = ?f v)"
      unfolding rrf_step_def by (rule set_dict_apply)
    then show "hid h = i \<and> rrf_score h \<noteq> None"
    proof
      assume "(i, h) \<in> set ?d1" then show ?thesis using d1 by blast
    next
      assume "\<exists>v. (hid r, v) \<in> set ?d1 \<and> i = hid r \<and> h = ?f v"
      then obtain v where v: "(hid r, v) \<in> set ?d1" "i = hid r" "h = ?f v" by blast
      then have "hid v = hid r" using d1 by blast
      then show ?thesis using v by (simp add: add_contribution_def)
    qed
  qed
qed

lemma rrf_step_val:
  "dict_val (rrf_step src k r d) i
     = dict_val d i + (if hid r = i then 1 / real_of_int (k + rank_in src r) else 0)"
  by (auto simp: dict_val_def rrf_step_def map_of_dict_apply map_of_dict_set
      add_contribution_def rrf_value_def split: option.splits)

lemma rrf_pass_keys:
  "rrf_pass src k rs d = Inr d' \<Longrightarrow>
   map fst d' = map fst d @ filter (\<lambda>x. x \<notin> set (map fst d)) (first_seen (map hid rs))"
proof (induction rs arbitrary: d)
  case Nil
  then show ?case by simp
next
  case (Cons r rs)
  from Cons.prems have nz: "k + rank_in src r \<noteq> 0"
    and rec: "rrf_pass src k rs (rrf_step src k r d) = Inr d'"
    by (auto simp: rrf_pass_Cons split: if_splits)
  note ih = Cons.IH[OF rec]
  show ?case
  proof (cases "hid r \<in> set (map fst d)")
    case True
    have "filter (\<lambda>x. x \<notin> set (map fst d)) (filter (\<lambda>y. y \<noteq> hid r) (first_seen (map hid rs)))
        = filter (\<lambda>x. x \<notin> set (map fst d)) (first_seen (map hid rs))"
      using True by (auto intro: filter_cong)
    then show ?thesis using ih True by (simp add: rrf_step_keys)
  next
    case False
    have "filter (\<lambda>x. x \<notin> set (map fst d)) (filter (\<lambda>y. y \<noteq> hid r) (first_seen (map hid rs)))
        = filter (\<lambda>x. x \<notin> set (map fst d @ [hid r])) (first_seen (map hid rs))"
      by (auto intro: filter_cong)
    then show ?thesis using ih False by (simp add: rrf_step_keys)
  qed
qed

lemma rrf_pass_ok: "rrf_pass src k rs d = Inr d' \<Longrightarrow> dict_ok d \<Longrightarrow> dict_ok d'"
proof (induction rs arbitrary: d)
  case Nil
  then show ?case by simp
next
  case (Cons r rs)
  from Cons.prems(1) have "rrf_pass src k rs (rrf_step src k r d) = Inr d'"
    by (auto simp: rrf_pass_Cons split: if_splits)
  then show ?case using Cons.IH Cons.prems(2) rrf_step_ok by blast
qed

lemma rrf_pass_val:
  "rrf_pass src k rs d = Inr d' \<Longrightarrow> dict_val d' i = dict_val d i + rrf_term src k rs i"
proof (induction rs arbitrary: d)
  case Nil
  then show ?case by (simp add: rrf_term_def)
next
  case (Cons r rs)
  from Cons.prems have "rrf_pass src k rs (rrf_step src k r d) = Inr d'"
    by (auto simp: rrf_pass_Cons split: if_splits)
  from Cons.IH[OF this] show ?case
    by (simp add: rrf_step_val rrf_term_def)
qed

lemma rrf_pass_total:
  "list_all (\<lambda>r. k + rank_in src r \<noteq> 0) rs \<Longrightarrow> \<exists>d'. rrf_pass src k rs d = Inr d'"
  by (induction rs arbitrary: d) (auto simp: rrf_pass_Cons)


lemma insort_key_map_commute:
  "f x = g (p x) \<Longrightarrow> \<forall>y\<in>set ys. f y = g (p y) \<Longrightarrow>
   map p (insort_key f x ys) = insort_key g (p x) (map p ys)"
  by (induction ys) auto

lemma sort_key_map_commute:
  "\<forall>x\<in>set xs. f x = g (p x) \<Longrightarrow> map p (sort_key f xs) = sort_key g (map p xs)"
  by (induction xs) (auto simp: insort_key_map_commute)

lemma sorted_desc_sorted: "sorted_wrt (\<lambda>a b. f a \<ge> f b) (sorted_desc f xs)"
proof -
  have "sorted (map (\<lambda>x. - f x) (sort_key (\<lambda>x. - f x) xs))" by (rule sorted_sort_key)
  then show ?thesis by (simp add: sorted_desc_def sorted_map)
qed

lemma sorted_desc_stable:
  "filter (\<lambda>x. f x = v) (sorted_desc f xs) = filter (\<lambda>x. f x = v) xs"
  using sort_key_stable [of "\<lambda>x. - f x" "- v" xs] by (simp add: sorted_desc_def)

lemma sorted_desc_map_commute:
  "\<forall>x\<in>set xs. f x = g (p x) \<Longrightarrow> map p (sorted_desc f xs) = sorted_desc g (map p xs)"
  unfolding sorted_desc_def by (rule sort_key_map_commute) simp

lemma ranked_final_rank:
  "map final_rank (map (\<lambda>(i, r). r\<lparr>final_rank := Some (int i + 1)\<rparr>) (enumerate_from n xs))
   = map (\<lambda>i. Some (int i + 1)) [n..<n + length xs]"
  by (induction xs arbitrary: n) (auto simp: upt_rec)

lemma assign_final_rank_ranks:
  "map final_rank (assign_final_rank xs) = map (\<lambda>i. Some (int i + 1)) [0..<length xs]"
  using ranked_final_rank [of 0 xs] by (simp add: assign_final_rank_def)

lemma assign_final_rank_keeps:
  "map hid (assign_final_rank xs) = map hid xs"
  "map rrf_score (assign_final_rank xs) = map rrf_score xs"
  "length (assign_final_rank xs) = length xs"
proof -
  have "\<And>n. map hid (map (\<lambda>(i, r). r\<lparr>final_rank := Some (int i + 1)\<rparr>) (enumerate_from n xs))
      = map hid xs"
    by (induction xs) auto
  then show "map hid (assign_final_rank xs) = map hid xs" by (simp add: assign_final_rank_def)
  have "\<And>n. map rrf_score (map (\<lambda>(i, r). r\<lparr>final_rank := Some (int i + 1)\<rparr>) (enumerate_from n xs))
      = map rrf_score xs"
    by (induction xs) auto
  then show "map rrf_score (assign_final_rank xs) = map rrf_score xs"
    by (simp add: assign_final_rank_def)
  show "length (assign_final_rank xs) = length xs"
    by (simp add: assign_final_rank_def enumerate_from_length)
qed

lemma enumerate_from_mem: "(i, x) \<in> set (enumerate_from n xs) \<Longrightarrow> x \<in> set xs"
  by (induction xs arbitrary: n) auto

lemma ranked_mem:
  "h \<in> set (map (\<lambda>(i, r). r\<lparr>final_rank := Some (int i + 1)\<rparr>) (enumerate_from n xs))
   \<Longrightarrow> \<exists>x r. x \<in> set xs \<and> h = x\<lparr>final_rank := r\<rparr>"
proof -
  assume "h \<in> set (map (\<lambda>(i, r). r\<lparr>final_rank := Some (int i + 1)\<rparr>) (enumerate_from n xs))"
  then obtain i x where "(i, x) \<in> set (enumerate_from n xs)"
    "h = x\<lparr>final_rank := Some (int i + 1)\<rparr>" by auto
  then have "x \<in> set xs \<and> h = x\<lparr>final_rank := Some (int i + 1)\<rparr>"
    using enumerate_from_mem by fast
  then show ?thesis by (intro exI)
qed

lemma assign_final_rank_mem:
  "h \<in> set (assign_final_rank xs) \<Longrightarrow> \<exists>x r. x \<in> set xs \<and> h = x\<lparr>final_rank := r\<rparr>"
  unfolding assign_final_rank_def by (rule ranked_mem)

lemma rrf_dict:
  assumes "reciprocal_rank_fusion sem_hits lex_hits k = Inr out"
  obtains d where "dict_ok d"
    and "map fst d = first_seen (map hid sem_hits @ map hid lex_hits)"
    and "\<And>i. dict_val d i = rrf_total k sem_hits lex_hits i"
    and "out = assign_final_rank (sorted_desc rrf_value (map snd d))"
proof -
  from assms obtain d1 d2 where
    p1: "rrf_pass Semantic k sem_hits [] = Inr d1"
    and p2: "rrf_pass Lexical k lex_hits d1 = Inr d2"
    and out: "out = assign_final_rank (sorted_desc rrf_value (map snd d2))"
    by (auto simp: reciprocal_rank_fusion_def split: sum.splits)
  have ok0: "dict_ok []" by (simp add: dict_ok_def)
  have ok: "dict_ok d2" using rrf_pass_ok[OF p2 rrf_pass_ok[OF p1 ok0]] .
  have k1: "map fst d1 = first_seen (map hid sem_hits)" using rrf_pass_keys[OF p1] by simp
  have keys: "map fst d2 = first_seen (map hid sem_hits @ map hid lex_hits)"
    using rrf_pass_keys[OF p2] k1 by (simp add: first_seen_append set_first_seen)
  have val: "\<And>i. dict_val d2 i = rrf_total k sem_hits lex_hits i"
    using rrf_pass_val[OF p1] rrf_pass_val[OF p2]
    by (simp add: rrf_total_def dict_val_def)
  show thesis using that[OF ok keys val out] .
qed

lemma dict_entries:
  assumes "dict_ok d" and "(i, h) \<in> set d"
  shows "hid h = i" and "rrf_value h = dict_val d i" and "rrf_score h = Some (dict_val d i)"
proof -
  from assms show i: "hid h = i" by (auto simp: dict_ok_def)
  from assms have "map_of d i = Some h" by (simp add: dict_ok_def)
  then show v: "rrf_value h = dict_val d i" by (simp add: dict_val_def)
  from assms have "rrf_score h \<noteq> None" by (auto simp: dict_ok_def)
  then show "rrf_score h = Some (dict_val d i)" using v by (auto simp: rrf_value_def)
qed

lemma rrf_ids:
  assumes "reciprocal_rank_fusion sem_hits lex_hits k = Inr out"
  shows "map hid out = sorted_desc (rrf_total k sem_hits lex_hits)
           (first_seen (map hid sem_hits @ map hid lex_hits))"
proof -
  from rrf_dict[OF assms] obtain d where d: "dict_ok d"
    "map fst d = first_seen (map hid sem_hits @ map hid lex_hits)"
    "\<And>i. dict_val d i = rrf_total k sem_hits lex_hits i"
    "out = assign_final_rank (sorted_desc rrf_value (map snd d))" by blast
  have e: "\<forall>h\<in>set (map snd d). rrf_value h = rrf_total k sem_hits lex_hits (hid h)"
    using dict_entries(1,2)[OF d(1)] d(3) by fastforce
  have "map hid (map snd d) = map fst d"
    using dict_entries(1)[OF d(1)] by (auto intro!: map_cong)
  then show ?thesis
    using sorted_desc_map_commute[of "map snd d" rrf_value "rrf_total k sem_hits lex_hits" hid, OF e] d(2,4) by (simp add: assign_final_rank_keeps del: map_map)
qed

lemma rrf_scores:
  assumes "reciprocal_rank_fusion sem_hits lex_hits k = Inr out" and "h \<in> set out"
  shows "rrf_score h = Some (rrf_total k sem_hits lex_hits (hid h))"
proof -
  from rrf_dict[OF assms(1)] obtain d where d: "dict_ok d"
    "\<And>i. dict_val d i = rrf_total k sem_hits lex_hits i"
    "out = assign_final_rank (sorted_desc rrf_value (map snd d))" by blast
  let ?s = "sorted_desc rrf_value (map snd d)"
  have e: "\<forall>x\<in>set ?s. rrf_score x = Some (rrf_total k sem_hits lex_hits (hid x))"
    using dict_entries(1,3)[OF d(1)] d(2) by (fastforce simp: sorted_desc_def)
  from assms(2) obtain x r where "x \<in> set ?s" "h = x\<lparr>final_rank := r\<rparr>"
    using assign_final_rank_mem d(3) by blast
  then have "x \<in> set ?s" "hid x = hid h" "rrf_score x = rrf_score h" by auto
  then show ?thesis using e by metis
qed

lemma rrf_returns:
  assumes "list_all (\<lambda>r. k + rank_in Semantic r \<noteq> 0) sem_hits"
    and "list_all (\<lambda>r. k + rank_in Lexical r \<noteq> 0) lex_hits"
  shows "\<exists>out. reciprocal_rank_fusion sem_hits lex_hits k = Inr out"
proof -
  from rrf_pass_total[OF assms(1)] obtain d1 where d1: "rrf_pass Semantic k sem_hits [] = Inr d1"
    by blast
  from rrf_pass_total[OF assms(2)] obtain d2 where "rrf_pass Lexical k lex_hits d1 = Inr d2"
    by blast
  then show ?thesis using d1 by (simp add: reciprocal_rank_fusion_def)
qed

lemma rrf_term_absent: "d \<notin> set (map hid rs) \<Longrightarrow> rrf_term src k rs d = 0"
proof -
  assume "d \<notin> set (map hid rs)"
  then have "filter (\<lambda>r. hid r = d) rs = []" by (auto simp: filter_empty_conv)
  then show ?thesis by (simp add: rrf_term_def)
qed

lemma rrf_term_single:
  "distinct (map hid rs) \<Longrightarrow> r \<in> set rs \<Longrightarrow>
   rrf_term src k rs (hid r) = 1 / real_of_int (k + rank_in src r)"
proof (induction rs)
  case Nil
  then show ?case by simp
next
  case (Cons a rs)
  show ?case
  proof (cases "r = a")
    case True
    have "hid a \<notin> set (map hid rs)" using Cons.prems(1) by simp
    then have "filter (\<lambda>x. hid x = hid a) rs = []"
      by (simp add: filter_empty_conv image_iff) metis
    then show ?thesis using True by (simp add: rrf_term_def)
  next
    case False
    then have r: "r \<in> set rs" using Cons.prems(2) by simp
    then have "hid a \<noteq> hid r" using Cons.prems(1) by auto
    then show ?thesis using Cons.IH r Cons.prems(1) by (simp add: rrf_term_def)
  qed
qed

text \<open>
  Claim C2, as the code has it. When no division by zero occurs the fusion returns, each
  document of either list appears once, and its score is the sum of \<open>1 / (k + rank)\<close> over
  its entries in the two lists: one term per list for a document that a list holds once,
  nothing for a list that does not hold it. The result is ordered by this score,
  descending. Documents of equal score keep the order of first appearance: the documents
  of the vector list in the order of that list, then the documents found by the lexical
  search alone in the order of the lexical list. The identifiers are not compared.
\<close>

theorem rrf_order_first_seen:
  "(list_all (\<lambda>r. k + rank_in Semantic r \<noteq> 0) sem_hits
      \<and> list_all (\<lambda>r. k + rank_in Lexical r \<noteq> 0) lex_hits
      \<longrightarrow> (\<exists>out. reciprocal_rank_fusion sem_hits lex_hits k = Inr out))
   \<and> (\<forall>out. reciprocal_rank_fusion sem_hits lex_hits k = Inr out \<longrightarrow>
         mset (map hid out) = mset (first_seen (map hid sem_hits @ map hid lex_hits))
       \<and> distinct (map hid out)
       \<and> (\<forall>h\<in>set out. rrf_score h = Some (rrf_total k sem_hits lex_hits (hid h)))
       \<and> sorted_wrt (\<lambda>a b. rrf_total k sem_hits lex_hits a \<ge> rrf_total k sem_hits lex_hits b)
            (map hid out)
       \<and> (\<forall>v. filter (\<lambda>d. rrf_total k sem_hits lex_hits d = v) (map hid out)
              = filter (\<lambda>d. rrf_total k sem_hits lex_hits d = v)
                  (first_seen (map hid sem_hits @ map hid lex_hits))))
   \<and> (\<forall>src rs. distinct (map hid rs) \<longrightarrow>
         (\<forall>r\<in>set rs. rrf_term src k rs (hid r) = 1 / real_of_int (k + rank_in src r)))
   \<and> (\<forall>src rs d. d \<notin> set (map hid rs) \<longrightarrow> rrf_term src k rs d = 0)"
proof (intro conjI allI impI)
  assume "list_all (\<lambda>r. k + rank_in Semantic r \<noteq> 0) sem_hits
      \<and> list_all (\<lambda>r. k + rank_in Lexical r \<noteq> 0) lex_hits"
  then show "\<exists>out. reciprocal_rank_fusion sem_hits lex_hits k = Inr out"
    using rrf_returns by blast
next
  fix out assume a: "reciprocal_rank_fusion sem_hits lex_hits k = Inr out"
  let ?ids = "first_seen (map hid sem_hits @ map hid lex_hits)"
  let ?T = "rrf_total k sem_hits lex_hits"
  note ids = rrf_ids[OF a]
  show "mset (map hid out) = mset ?ids" by (simp add: ids mset_sorted_desc)
  then show "distinct (map hid out)"
    using distinct_first_seen[of "map hid sem_hits @ map hid lex_hits"]
    by (metis mset_eq_imp_distinct_iff)
  show "\<forall>h\<in>set out. rrf_score h = Some (?T (hid h))" using rrf_scores[OF a] by blast
  show "sorted_wrt (\<lambda>a b. ?T a \<ge> ?T b) (map hid out)" by (simp add: ids sorted_desc_sorted)
  fix v
  show "filter (\<lambda>d. ?T d = v) (map hid out) = filter (\<lambda>d. ?T d = v) ?ids"
    by (simp add: ids sorted_desc_stable)
next
  fix src and rs :: "hit list" assume "distinct (map hid rs)"
  then show "\<forall>r\<in>set rs. rrf_term src k rs (hid r) = 1 / real_of_int (k + rank_in src r)"
    using rrf_term_single by blast
next
  fix src and rs :: "hit list" and d assume "d \<notin> set (map hid rs)"
  then show "rrf_term src k rs d = 0" by (rule rrf_term_absent)
qed

text \<open>
  The theorem for two vector hits and one lexical hit: the document found by both
  searches comes first.
\<close>

theorem rrf_order_first_seen_witness:
  "list_all (\<lambda>r. 60 + rank_in Semantic r \<noteq> 0) (semantic_search bridge_tie [1, 0] ''T1'' 4)
   \<and> list_all (\<lambda>r. 60 + rank_in Lexical r \<noteq> 0) (lexical_search ''x'' ''T1'' 1)
   \<and> map_sum id (map (\<lambda>h. (hid h, rrf_score h)))
        (reciprocal_rank_fusion (semantic_search bridge_tie [1, 0] ''T1'' 4)
           (lexical_search ''x'' ''T1'' 1) 60)
      = Inr [(''doc_T1_0'', Some (1 / 62 + 1 / 61)), (''doc_T1_1'', Some (1 / 61))]
   \<and> first_seen (map hid (semantic_search bridge_tie [1, 0] ''T1'' 4)
                  @ map hid (lexical_search ''x'' ''T1'' 1)) = [''doc_T1_1'', ''doc_T1_0'']
   \<and> rrf_total 60 (semantic_search bridge_tie [1, 0] ''T1'' 4) (lexical_search ''x'' ''T1'' 1)
        ''doc_T1_0'' = 1 / 62 + 1 / 61"
proof -
  have 1: "list_all (\<lambda>r. 60 + rank_in Semantic r \<noteq> 0) (semantic_search bridge_tie [1, 0] ''T1'' 4)"
    by code_simp
  have 2: "list_all (\<lambda>r. 60 + rank_in Lexical r \<noteq> 0) (lexical_search ''x'' ''T1'' 1)"
    by code_simp
  have 3: "map_sum id (map (\<lambda>h. (hid h, rrf_score h)))
        (reciprocal_rank_fusion (semantic_search bridge_tie [1, 0] ''T1'' 4)
           (lexical_search ''x'' ''T1'' 1) 60)
      = Inr [(''doc_T1_0'', Some (1 / 62 + 1 / 61)), (''doc_T1_1'', Some (1 / 61))]"
    by code_simp
  have 4: "first_seen (map hid (semantic_search bridge_tie [1, 0] ''T1'' 4)
                  @ map hid (lexical_search ''x'' ''T1'' 1)) = [''doc_T1_1'', ''doc_T1_0'']"
    by code_simp
  have 5: "rrf_total 60 (semantic_search bridge_tie [1, 0] ''T1'' 4) (lexical_search ''x'' ''T1'' 1)
        ''doc_T1_0'' = 1 / 62 + 1 / 61"
    by code_simp
  show ?thesis
    using 1 2 3 4 5
      rrf_order_first_seen [of 60 "semantic_search bridge_tie [1, 0] ''T1'' 4"
        "lexical_search ''x'' ''T1'' 1"]
    by simp
qed

text \<open>
  Claim C2 as stated breaks a tie between two documents of the vector list by the lower
  identifier. The vector search ranks \<open>doc_T1_1\<close> before \<open>doc_T1_0\<close>, the lexical search
  the other way round; both reach \<open>1/61 + 1/62\<close>, and the fusion puts \<open>doc_T1_1\<close> first.
  A search for one hit returns \<open>doc_T1_1\<close>.
\<close>

theorem rrf_tie_counterexample:
  "map_sum id (map (\<lambda>h. (hid h, rrf_score h)))
     (reciprocal_rank_fusion (semantic_search bridge_tie [1, 0] ''T1'' 2)
        (lexical_search ''x'' ''T1'' 2) 60)
   = Inr [(''doc_T1_1'', Some (1 / 61 + 1 / 62)), (''doc_T1_0'', Some (1 / 62 + 1 / 61))]
   \<and> (1 / 61 + 1 / 62 :: real) = 1 / 62 + 1 / 61
   \<and> map hid (semantic_search bridge_tie [1, 0] ''T1'' 2) = [''doc_T1_1'', ''doc_T1_0'']
   \<and> map hid (lexical_search ''x'' ''T1'' 2) = [''doc_T1_0'', ''doc_T1_1'']
   \<and> (of_char (last ''doc_T1_0'') :: nat) < of_char (last ''doc_T1_1'')
   \<and> map_sum id (map hid) (federated_search bridge_tie ''x'' ''T1'' 1 None False None True)
       = Inr [''doc_T1_1'']"
proof -
  have "map_sum id (map (\<lambda>h. (hid h, rrf_score h)))
     (reciprocal_rank_fusion (semantic_search bridge_tie [1, 0] ''T1'' 2)
        (lexical_search ''x'' ''T1'' 2) 60)
   = Inr [(''doc_T1_1'', Some (1 / 61 + 1 / 62)), (''doc_T1_0'', Some (1 / 62 + 1 / 61))]"
    by code_simp
  moreover have "map hid (semantic_search bridge_tie [1, 0] ''T1'' 2) = [''doc_T1_1'', ''doc_T1_0'']"
    by code_simp
  moreover have "map hid (lexical_search ''x'' ''T1'' 2) = [''doc_T1_0'', ''doc_T1_1'']"
    by code_simp
  moreover have "map_sum id (map hid)
      (federated_search bridge_tie ''x'' ''T1'' 1 None False None True) = Inr [''doc_T1_1'']"
    by code_simp
  ultimately show ?thesis by simp
qed

section \<open>Properties of the combination with external hits\<close>

lemma fuse_unfold:
  "fuse_internal_and_external internal external
     = map (\<lambda>(i, result). result\<lparr>final_rank := Some (int i + 1),
                                  fusion_score := Some (get_sort_key result)\<rparr>)
         (enumerate_from 0 (sorted_desc get_sort_key (combined_results internal external)))"
  by (simp add: fuse_internal_and_external_def combined_results_def Let_def)

lemma get_sort_key_ranked [simp]:
  "get_sort_key (h\<lparr>final_rank := r, fusion_score := f\<rparr>) = get_sort_key h"
  by (simp add: get_sort_key_def rrf_value_def)

lemma candidate_ranked [simp]:
  "candidate (h\<lparr>final_rank := r, fusion_score := f\<rparr>) = candidate h"
  by (simp add: candidate_def)

lemma fuse_candidates_aux:
  "map candidate (map (\<lambda>(i, result). result\<lparr>final_rank := Some (int i + 1),
                                  fusion_score := Some (get_sort_key result)\<rparr>)
         (enumerate_from n xs)) = map candidate xs"
  by (induction xs arbitrary: n) auto

lemma fuse_candidates:
  "map candidate (fuse_internal_and_external internal external)
     = map candidate (sorted_desc get_sort_key (combined_results internal external))"
  by (simp only: fuse_unfold fuse_candidates_aux)

lemma fuse_candidates_sorted:
  "map candidate (fuse_internal_and_external internal external)
     = sorted_desc (\<lambda>c. snd (snd c)) (map candidate (combined_results internal external))"
proof -
  have "\<forall>x\<in>set (combined_results internal external). get_sort_key x = snd (snd (candidate x))"
    by (simp add: candidate_def)
  then show ?thesis by (simp only: fuse_candidates sorted_desc_map_commute)
qed


lemma effective_score:
  "(0 < rrf_value r \<longrightarrow> get_sort_key (r\<lparr>fusion_source := Some FromInternal\<rparr>) = rrf_value r)
   \<and> (rrf_value r \<le> 0 \<longrightarrow> get_sort_key (r\<lparr>fusion_source := Some FromInternal\<rparr>) = score r)
   \<and> (rrf_value r \<le> 0 \<longrightarrow> get_sort_key (r\<lparr>fusion_source := Some FromExternal\<rparr>) = score r * 1.2)
   \<and> (0 < rrf_value r \<longrightarrow>
        get_sort_key (r\<lparr>fusion_source := Some FromExternal\<rparr>) = rrf_value r * 1.2)"
  by (simp add: get_sort_key_def rrf_value_def)

lemma fuse_mem:
  assumes "h \<in> set (fuse_internal_and_external internal external)"
  shows "\<exists>x i. x \<in> set (combined_results internal external)
           \<and> h = x\<lparr>final_rank := Some (int i + 1), fusion_score := Some (get_sort_key x)\<rparr>"
proof -
  from assms obtain i x where
    m: "(i, x) \<in> set (enumerate_from 0 (sorted_desc get_sort_key (combined_results internal external)))"
    and h: "h = x\<lparr>final_rank := Some (int i + 1), fusion_score := Some (get_sort_key x)\<rparr>"
    unfolding fuse_unfold by auto
  from enumerate_from_mem[OF m] have "x \<in> set (combined_results internal external)"
    by (simp add: sorted_desc_def)
  then show ?thesis using h by blast
qed

lemma fuse_fusion_score:
  "h \<in> set (fuse_internal_and_external internal external) \<Longrightarrow>
   fusion_score h = Some (get_sort_key h)"
  by (drule fuse_mem) auto

lemma fuse_final_rank:
  "map final_rank (fuse_internal_and_external internal external)
     = map (\<lambda>i. Some (int i + 1))
         [0..<length (fuse_internal_and_external internal external)]"
proof -
  have "\<And>n xs. map final_rank
          (map (\<lambda>(i, result). result\<lparr>final_rank := Some (int i + 1),
                                  fusion_score := Some (get_sort_key result)\<rparr>)
             (enumerate_from n xs))
        = map (\<lambda>i. Some (int i + 1)) [n..<n + length xs]"
    subgoal for n xs by (induction xs arbitrary: n) (auto simp: upt_rec)
    done
  from this[of 0] show ?thesis
    by (simp add: fuse_unfold enumerate_from_length del: map_map)
qed

lemma fuse_length:
  "length (fuse_internal_and_external internal external) = length internal + length external"
  by (simp add: fuse_unfold enumerate_from_length sorted_desc_def combined_results_def)

lemma py_prefix_take: "0 \<le> k \<Longrightarrow> py_prefix k xs = take (nat k) xs"
  by (simp add: py_prefix_def)

lemma py_prefix_ranks:
  assumes "map final_rank xs = map (\<lambda>i. Some (int i + 1)) [0..<length xs]"
  shows "map final_rank (py_prefix k xs)
           = map (\<lambda>i. Some (int i + 1)) [0..<length (py_prefix k xs)]"
proof -
  have "\<exists>m. py_prefix k xs = take m xs" unfolding py_prefix_def by (cases "0 \<le> k") auto
  then obtain m where m: "py_prefix k xs = take m xs" by blast
  have "map final_rank (take m xs) = take m (map (\<lambda>i. Some (int i + 1)) [0..<length xs])"
    using assms by (simp add: take_map[symmetric] del: take_map)
  also have "\<dots> = map (\<lambda>i. Some (int i + 1)) [0..<min m (length xs)]"
  proof (cases "m \<le> length xs")
    case True
    then show ?thesis by (simp add: take_map min_def)
  next
    case False
    then show ?thesis by (simp add: take_map min_def)
  qed
  finally show ?thesis by (simp add: m min.commute)
qed

lemma federated_search_length:
  assumes "federated_search br query tenant_id k_total alpha_arg pers external_docs use_internal
             = Inr hits"
    and "0 \<le> k_total"
  shows "length hits \<le> nat k_total"
proof (cases "federated_search_body br query tenant_id k_total alpha_arg pers external_docs
                use_internal")
  case (Inl e)
  then show ?thesis using assms by (simp add: federated_search_def)
next
  case (Inr final)
  then have "final = [] \<or> (\<exists>fused md. final
      = map (\<lambda>result. result\<lparr>search_metadata := Some md\<rparr>) (py_prefix k_total fused))"
    unfolding federated_search_body_def Let_def
    by (auto split: if_splits sum.splits)
  moreover have "hits = final" using Inr assms(1) by (simp add: federated_search_def)
  ultimately show ?thesis using assms(2) by (auto simp: py_prefix_take)
qed


text \<open>
  Claim C3, as the code has it. The effective score of an internal candidate is its RRF
  score when that is positive, and the score of an external candidate (which has no RRF
  score) times 1.2; it is recorded as \<open>fusion_score\<close>. The candidates are sorted by it,
  descending, and candidates of equal effective score keep the order of the combined
  list: the internal candidates in their fused order, then the external ones in their
  scored order; neither the origin nor the identifier is compared. The final ranks are
  1 to N. The search then keeps the first \<open>k_total\<close> candidates, whose ranks are again
  1 to their number, so that a search with \<open>k_total\<close> not negative returns at most
  \<open>k_total\<close> hits.
\<close>

theorem fuse_order_combined:
  "(0 < rrf_value r \<longrightarrow> get_sort_key (r\<lparr>fusion_source := Some FromInternal\<rparr>) = rrf_value r)
   \<and> (rrf_score r = None \<longrightarrow>
        get_sort_key (r\<lparr>fusion_source := Some FromExternal\<rparr>) = score r * 1.2)
   \<and> (\<forall>h\<in>set (fuse_internal_and_external internal external).
        fusion_score h = Some (get_sort_key h))
   \<and> sorted_wrt (\<lambda>a b. snd (snd a) \<ge> snd (snd b))
        (map candidate (fuse_internal_and_external internal external))
   \<and> (\<forall>v. filter (\<lambda>c. snd (snd c) = v)
              (map candidate (fuse_internal_and_external internal external))
          = filter (\<lambda>c. snd (snd c) = v) (map candidate (combined_results internal external)))
   \<and> mset (map candidate (fuse_internal_and_external internal external))
       = mset (map candidate (combined_results internal external))
   \<and> map final_rank (fuse_internal_and_external internal external)
       = map (\<lambda>n. Some (int n + 1)) [0..<length internal + length external]
   \<and> map final_rank (py_prefix k (fuse_internal_and_external internal external))
       = map (\<lambda>n. Some (int n + 1))
           [0..<length (py_prefix k (fuse_internal_and_external internal external))]
   \<and> (0 \<le> k \<longrightarrow> py_prefix k (fuse_internal_and_external internal external)
                   = take (nat k) (fuse_internal_and_external internal external))
   \<and> (0 \<le> k_total
        \<and> federated_search br query tenant_id k_total alpha_arg pers external_docs use_internal
            = Inr hits
        \<longrightarrow> length hits \<le> nat k_total)"
proof -
  let ?out = "fuse_internal_and_external internal external"
  have 1: "0 < rrf_value r \<longrightarrow> get_sort_key (r\<lparr>fusion_source := Some FromInternal\<rparr>) = rrf_value r"
    using effective_score by blast
  have "rrf_score r = None \<Longrightarrow> rrf_value r \<le> 0" by (simp add: rrf_value_def)
  then have 2: "rrf_score r = None \<longrightarrow>
        get_sort_key (r\<lparr>fusion_source := Some FromExternal\<rparr>) = score r * 1.2"
    using effective_score by blast
  have 3: "\<forall>h\<in>set ?out. fusion_score h = Some (get_sort_key h)"
    using fuse_fusion_score by blast
  have 4: "sorted_wrt (\<lambda>a b. snd (snd a) \<ge> snd (snd b)) (map candidate ?out)"
    by (simp only: fuse_candidates_sorted sorted_desc_sorted)
  have 5: "\<forall>v. filter (\<lambda>c. snd (snd c) = v) (map candidate ?out)
          = filter (\<lambda>c. snd (snd c) = v) (map candidate (combined_results internal external))"
    by (simp only: fuse_candidates_sorted sorted_desc_stable) simp
  have 6: "mset (map candidate ?out) = mset (map candidate (combined_results internal external))"
    by (simp only: fuse_candidates_sorted mset_sorted_desc)
  have 7: "map final_rank ?out = map (\<lambda>n. Some (int n + 1)) [0..<length internal + length external]"
    using fuse_final_rank[of internal external] by (simp only: fuse_length)
  have 8: "map final_rank (py_prefix k ?out)
       = map (\<lambda>n. Some (int n + 1)) [0..<length (py_prefix k ?out)]"
    by (rule py_prefix_ranks) (rule fuse_final_rank)
  have 9: "0 \<le> k \<longrightarrow> py_prefix k ?out = take (nat k) ?out"
    by (simp add: py_prefix_take)
  have 10: "0 \<le> k_total
        \<and> federated_search br query tenant_id k_total alpha_arg pers external_docs use_internal
            = Inr hits
        \<longrightarrow> length hits \<le> nat k_total"
    using federated_search_length by blast
  show ?thesis using 1 2 3 4 5 6 7 8 9 10 by (intro conjI)
qed

text \<open>
  The theorem for one internal candidate of RRF score \<open>1/61\<close> and two external documents
  of equal score \<open>0.08\<close>: the external candidates lead with \<open>0.096\<close>, in their order.
\<close>

theorem fuse_order_combined_witness:
  "0 < rrf_value hit_p
   \<and> get_sort_key (hit_p\<lparr>fusion_source := Some FromInternal\<rparr>) = 1 / 61
   \<and> map candidate (fuse_internal_and_external [hit_p]
          (process_external_docs bridge_tie [doc_b, doc_a] ''x'' None))
       = [(Some FromExternal, ''b'', 12 / 125), (Some FromExternal, ''a'', 12 / 125),
          (Some FromInternal, ''p'', 1 / 61)]
   \<and> map final_rank (fuse_internal_and_external [hit_p]
          (process_external_docs bridge_tie [doc_b, doc_a] ''x'' None))
       = [Some 1, Some 2, Some 3]
   \<and> map final_rank (py_prefix 2 (fuse_internal_and_external [hit_p]
          (process_external_docs bridge_tie [doc_b, doc_a] ''x'' None)))
       = [Some 1, Some 2]"
proof -
  have a: "0 < rrf_value hit_p" by (simp add: hit_p_def new_hit_def rrf_value_def)
  have b: "map candidate (fuse_internal_and_external [hit_p]
          (process_external_docs bridge_tie [doc_b, doc_a] ''x'' None))
       = [(Some FromExternal, ''b'', 12 / 125), (Some FromExternal, ''a'', 12 / 125),
          (Some FromInternal, ''p'', 1 / 61)]"
    by code_simp
  have c: "map final_rank (fuse_internal_and_external [hit_p]
          (process_external_docs bridge_tie [doc_b, doc_a] ''x'' None))
       = [Some 1, Some 2, Some 3]"
    by code_simp
  have d: "map final_rank (py_prefix 2 (fuse_internal_and_external [hit_p]
          (process_external_docs bridge_tie [doc_b, doc_a] ''x'' None)))
       = [Some 1, Some 2]"
    by code_simp
  have e: "rrf_value hit_p = 1 / 61" by (simp add: hit_p_def new_hit_def rrf_value_def)
  show ?thesis
    using a b c d e
      fuse_order_combined [of hit_p "[hit_p]"
        "process_external_docs bridge_tie [doc_b, doc_a] ''x'' None" 2 2 bridge_tie "''x''"
        "''T1''" None False "Some [doc_b, doc_a]" True "[]"]
    by simp
qed

text \<open>
  Claim C3 as stated breaks a tie between candidates of one origin by the identifier,
  ascending. The external documents \<open>b\<close> and \<open>a\<close>, given in this order with equal
  priority and text, reach the same effective score; the search ranks \<open>b\<close> first and
  \<open>a\<close> second.
\<close>

theorem fuse_tie_counterexample:
  "map_sum id (map (\<lambda>h. (hid h, fusion_score h, final_rank h)))
     (federated_search bridge_tie ''x'' ''T1'' 2 None False (Some [doc_b, doc_a]) True)
   = Inr [(''b'', Some (222 / 625), Some 1), (''a'', Some (222 / 625), Some 2)]
   \<and> (of_char (hd ''a'') :: nat) < of_char (hd ''b'')"
proof -
  have "map_sum id (map (\<lambda>h. (hid h, fusion_score h, final_rank h)))
     (federated_search bridge_tie ''x'' ''T1'' 2 None False (Some [doc_b, doc_a]) True)
   = Inr [(''b'', Some (222 / 625), Some 1), (''a'', Some (222 / 625), Some 2)]"
    by code_simp
  then show ?thesis by simp
qed

section \<open>Properties of the personalization\<close>

















section \<open>Properties of the centroid build\<close>






lemma mean_eval: "np_mean_axis0 [[1, 0], [- 1, 0]] = Inr [0, 0]"
  by code_simp

lemma mean_eval2: "np_mean_axis0 [[3, 0], [0, 0], [0, 4]] = Inr [1, 4 / 3]"
  by code_simp









section \<open>Final ranks of the federated search\<close>

lemma rrf_ranked:
  assumes "reciprocal_rank_fusion sem_hits lex_hits k = Inr out"
  shows "ranked out"
proof -
  from assms obtain xs where "out = assign_final_rank xs"
    by (auto simp: reciprocal_rank_fusion_def split: sum.splits)
  then show ?thesis
    using assign_final_rank_ranks[of xs] by (simp add: ranked_def assign_final_rank_keeps(3))
qed

lemma fuse_sources_ranked:
  assumes "fuse_sources br (Some s) (Some l) e = Inr fused"
  shows "ranked fused"
proof -
  let ?eph = "case e of Some xs \<Rightarrow> xs | None \<Rightarrow> []"
  let ?int = "if s \<noteq> [] \<or> l \<noteq> [] then reciprocal_rank_fusion s l (rrf_k br) else Inr []"
  have n: "length (filter (\<lambda>x. x \<noteq> None) [Some s, Some l, e]) \<noteq> 1" by simp
  from assms obtain internal where i: "?int = Inr internal"
    and f: "fused = (if ?eph \<noteq> [] then fuse_internal_and_external internal ?eph else internal)"
    unfolding fuse_sources_def Let_def using n
    by (auto split: sum.splits if_splits)
  have ri: "ranked internal"
  proof (cases "s \<noteq> [] \<or> l \<noteq> []")
    case True
    then show ?thesis using i rrf_ranked by auto
  next
    case False
    then show ?thesis using i by (auto simp: ranked_def)
  qed
  show ?thesis
  proof (cases "?eph \<noteq> []")
    case True
    then show ?thesis using f fuse_final_rank[of internal ?eph] by (simp add: ranked_def)
  next
    case False
    then show ?thesis using f ri by simp
  qed
qed

text \<open>
  With the internal search on, every list of hits returned carries the final ranks 1 to
  its length: both fusion functions assign them and the truncation keeps a prefix.
\<close>

lemma federated_search_internal_ranked:
  assumes "federated_search br query tenant_id k_total alpha_arg pers external_docs True = Inr hits"
  shows "ranked hits"
proof (cases "federated_search_body br query tenant_id k_total alpha_arg pers external_docs True")
  case (Inl e)
  then show ?thesis using assms by (simp add: federated_search_def ranked_def)
next
  case (Inr final)
  then have h: "hits = final" using assms by (simp add: federated_search_def)
  from Inr obtain qv where sv: "search_vector br query tenant_id alpha_arg pers True = Inr qv"
    unfolding federated_search_body_def by (auto split: sum.splits)
  then obtain v where qv: "qv = Some v"
    by (auto simp: search_vector_def Let_def split: if_splits sum.splits)
  from Inr sv qv obtain e fused md where
    fs: "fuse_sources br (Some (semantic_search br v tenant_id (min (k_total * 2) 50)))
           (Some (lexical_search query tenant_id (min (k_total * 2) 50))) e = Inr fused"
    and fin: "final = map (\<lambda>result. result\<lparr>search_metadata := Some md\<rparr>) (py_prefix k_total fused)"
    unfolding federated_search_body_def Let_def
    by (auto split: sum.splits if_splits)
  have "ranked fused" using fuse_sources_ranked[OF fs] .
  then have "ranked (py_prefix k_total fused)"
    unfolding ranked_def by (rule py_prefix_ranks)
  then show ?thesis unfolding ranked_def h fin by (simp add: comp_def)
qed

text \<open>
  Claim C1 at a request with one external document and no internal search: the only
  list of hits is returned as it is, past both functions that assign final ranks, and its
  hit has the keys \<open>external_rank\<close> and \<open>final_external_rank\<close> but no \<open>final_rank\<close>.
\<close>

theorem external_only_has_no_final_rank:
  "map_sum id (map (\<lambda>h. (hid h, final_rank h, final_external_rank h)))
     (federated_search bridge_offline ''x'' ''T1'' 3 None True (Some [doc_d1]) False)
   = Inr [(''d1'', None, Some 1)]"
  by code_simp

end
